theory Spec2Isabelle
  imports Main "HOL-Library.AList"
begin

section \<open>Python values and library functions\<close>

text \<open>
  The program is \<^verbatim>\<open>src/chromy/chromi.py\<close>, the class \<^verbatim>\<open>ChromInstance\<close>.  Its methods
  read and write files, mutate three dictionaries and may raise.  In this embedding
  \<^item> a method is a function from the state before the call to an \<open>outcome\<close>: the state
    when the call ends, paired with the exception that ended it (\<open>None\<close> for a normal
    return);
  \<^item> a Python \<^verbatim>\<open>dict\<close> is an association list in insertion order: \<^verbatim>\<open>d[k] = v\<close> is
    \<open>AList.update k v d\<close> (the value is replaced in place, a new key goes to the end),
    \<^verbatim>\<open>d.pop(k)\<close> is \<open>AList.delete k d\<close>, \<^verbatim>\<open>k in d\<close> is \<open>map_of d k \<noteq> None\<close>;
  \<^item> a Python \<^verbatim>\<open>set\<close> of strings is a \<open>string set\<close>;
  \<^item> a \<^verbatim>\<open>Path\<close> is the string it prints as.
\<close>

type_synonym path = string

datatype error =
    KeyError
  | IndexError
  | ValueError
  | JSONDecodeError
  | FileNotFoundError
  | IsADirectoryError

type_synonym 's outcome = "'s \<times> error option"

text \<open>\<^verbatim>\<open>for x in xs: body\<close>, where the body may raise: the loop stops at the first exception.\<close>

fun for_each :: "('a \<Rightarrow> 's \<Rightarrow> 's outcome) \<Rightarrow> 'a list \<Rightarrow> 's \<Rightarrow> 's outcome" where
  "for_each body [] s = (s, None)"
| "for_each body (x # xs) s =
     (case body x s of
        (s', None) \<Rightarrow> for_each body xs s'
      | (s', Some e) \<Rightarrow> (s', Some e))"

text \<open>\<^verbatim>\<open>sep.join(xs)\<close>.\<close>

fun py_join :: "string \<Rightarrow> string list \<Rightarrow> string" where
  "py_join sep [] = []"
| "py_join sep [x] = x"
| "py_join sep (x # y # ys) = x @ sep @ py_join sep (y # ys)"

text \<open>
  \<^verbatim>\<open>int(s)\<close> on a string of ASCII characters: white space is stripped at both ends, one
  sign may come first, then decimal digits, single underscores allowed between two
  digits; leading zeros are accepted.  \<open>None\<close> stands for \<^verbatim>\<open>ValueError\<close>.  (The
  interpreter's configurable limit on the number of digits is not modelled.)
\<close>

definition is_space :: "char \<Rightarrow> bool" where
  "is_space c = (c \<in> set [CHR 0x09, CHR 0x0A, CHR 0x0B, CHR 0x0C, CHR 0x0D,
                           CHR 0x1C, CHR 0x1D, CHR 0x1E, CHR 0x1F, CHR 0x20])"

definition strip :: "string \<Rightarrow> string" where
  "strip s = rev (dropWhile is_space (rev (dropWhile is_space s)))"

definition digit_of :: "char \<Rightarrow> nat option" where
  "digit_of c =
     (let n = (of_char c :: nat) in if 48 \<le> n \<and> n \<le> 57 then Some (n - 48) else None)"

fun parse_digits :: "nat \<Rightarrow> string \<Rightarrow> nat option" where
  "parse_digits acc [] = Some acc"
| "parse_digits acc (c # cs) =
     (if c = CHR ''_'' then
        (case cs of
           [] \<Rightarrow> None
         | d # ds \<Rightarrow>
             (case digit_of d of
                None \<Rightarrow> None
              | Some n \<Rightarrow> parse_digits (10 * acc + n) ds))
      else
        (case digit_of c of
           None \<Rightarrow> None
         | Some n \<Rightarrow> parse_digits (10 * acc + n) cs))"

definition py_int :: "string \<Rightarrow> int option" where
  "py_int s =
     (let t = strip s;
          neg = (t \<noteq> [] \<and> hd t = CHR ''-'');
          body = (if t \<noteq> [] \<and> (hd t = CHR ''-'' \<or> hd t = CHR ''+'') then tl t else t)
      in case body of
           [] \<Rightarrow> None
         | d # ds \<Rightarrow>
             (case digit_of d of
                None \<Rightarrow> None
              | Some n \<Rightarrow>
                  (case parse_digits n ds of
                     None \<Rightarrow> None
                   | Some m \<Rightarrow> Some (if neg then - int m else int m))))"

text \<open>\<^verbatim>\<open>str(n)\<close> for an integer: its decimal numeral.\<close>

fun nat_digits :: "nat \<Rightarrow> string" where
  "nat_digits n =
     (if n < 10 then [''0123456789'' ! n]
      else nat_digits (n div 10) @ [''0123456789'' ! (n mod 10)])"

declare nat_digits.simps [simp del]

definition py_str :: "int \<Rightarrow> string" where
  "py_str i = (if i < 0 then CHR ''-'' # nat_digits (nat (- i)) else nat_digits (nat i))"

text \<open>
  \<^verbatim>\<open>a / b\<close> and \<^verbatim>\<open>Path(a, b)\<close> of \<^verbatim>\<open>pathlib\<close>, on POSIX paths already in normal form: an
  absolute \<open>b\<close> replaces \<open>a\<close>, an empty \<open>b\<close> leaves \<open>a\<close> as it is.
\<close>

definition path_join :: "path \<Rightarrow> path \<Rightarrow> path" where
  "path_join a b =
     (if b = [] then a
      else if hd b = CHR ''/'' then b
      else a @ ''/'' @ b)"

section \<open>Files on disk\<close>

text \<open>
  The program sees the files through \<^verbatim>\<open>json.loads\<close>.  The parsed documents are modelled
  at the types the code's annotations give them (\<^verbatim>\<open>dict[str, dict]\<close>, \<^verbatim>\<open>list[dict]\<close>,
  string fields); a key that may be missing is an \<open>option\<close>.  An object's entries stand in
  the order of the file.
\<close>

text \<open>An entry of \<^verbatim>\<open>profile.info_cache\<close> in the file \<^verbatim>\<open>Local State\<close>.\<close>

record profile_info =
  pi_name :: "string option"
  pi_user_name :: "string option"
  pi_gaia_name :: "string option"
  pi_gaia_given_name :: "string option"

text \<open>An extension manifest: the file \<^verbatim>\<open>manifest.json\<close>, or the object embedded in the settings.\<close>

record manifest =
  m_name :: "string option"
  m_description :: "string option"
  m_icons :: "(string \<times> string) list option"

text \<open>An entry of \<^verbatim>\<open>extensions.settings\<close> in the file \<^verbatim>\<open>Secure Preferences\<close>.\<close>

record ext_set =
  es_path :: "string option"
  es_manifest :: "manifest option"

text \<open>A node of a bookmark tree, with the four keys the program reads.\<close>

datatype node =
  Node (n_type: "string option") (n_name: "string option") (n_url: "string option")
       (n_children: "node list option")

text \<open>
  A parsed JSON document, seen through the keys the program looks up in one:
  \<^verbatim>\<open>profile.info_cache\<close>, \<^verbatim>\<open>extensions.settings\<close>, \<^verbatim>\<open>roots\<close>, \<^verbatim>\<open>checksum\<close>, and the
  keys of a manifest.  \<^verbatim>\<open>get_with_chained_keys(data, keys)\<close> of the library \<^verbatim>\<open>jnp3\<close> is the
  selector of the chained key, \<open>None\<close> when a key of the chain is absent.
\<close>

record json_data =
  j_info_cache :: "(string \<times> profile_info) list option"
  j_ext_settings :: "(string \<times> ext_set) list option"
  j_roots :: "(string \<times> node) list option"
  j_checksum :: "string option"
  j_manifest :: manifest

text \<open>The text of a regular file, as \<^verbatim>\<open>json.loads\<close> reads it.\<close>

datatype file_text = Malformed | Json json_data

datatype entry = Dir | File file_text

type_synonym filesystem = "path \<Rightarrow> entry option"

definition is_dir :: "filesystem \<Rightarrow> path \<Rightarrow> bool" where
  "is_dir fs p = (fs p = Some Dir)"

definition is_file :: "filesystem \<Rightarrow> path \<Rightarrow> bool" where
  "is_file fs p = (case fs p of Some (File t) \<Rightarrow> True | _ \<Rightarrow> False)"

text \<open>\<^verbatim>\<open>path_exists\<close> of the library \<^verbatim>\<open>jnp3\<close>.\<close>

definition path_exists :: "filesystem \<Rightarrow> path \<Rightarrow> bool" where
  "path_exists fs p = (fs p \<noteq> None)"

text \<open>\<^verbatim>\<open>json.loads(p.read_text(encoding="utf-8"))\<close>.\<close>

definition read_json :: "filesystem \<Rightarrow> path \<Rightarrow> error + json_data" where
  "read_json fs p =
     (case fs p of
        None \<Rightarrow> Inl FileNotFoundError
      | Some Dir \<Rightarrow> Inl IsADirectoryError
      | Some (File Malformed) \<Rightarrow> Inl JSONDecodeError
      | Some (File (Json d)) \<Rightarrow> Inr d)"

section \<open>The engine's data\<close>

text \<open>
  Modelled from the spec: the classes \<^verbatim>\<open>Profile\<close>, \<^verbatim>\<open>Extension\<close> and \<^verbatim>\<open>Bookmark\<close> of
  \<^verbatim>\<open>structs.py\<close>, which the program imports.  A new profile has no bookmark file, no
  extension identifiers and no bookmarks.
\<close>

record profile =
  p_id :: string
  p_name :: string
  p_user_name :: string
  p_gaia_name :: string
  p_gaia_given_name :: string
  p_userdata_dir :: path
  p_profile_dir :: path
  p_bookmark_file :: path
  p_extensions :: "string set"
  p_bookmarks :: "(string \<times> string) list"

record extension =
  e_id :: string
  e_name :: string
  e_description :: string
  e_icon :: path
  e_profiles :: "string set"

record bookmark =
  b_name :: string
  b_url :: string
  b_profiles :: "(string \<times> string) list"

record chrom_instance =
  userdata_dir :: path
  profiles :: "(string \<times> profile) list"
  extensions :: "(string \<times> extension) list"
  bookmarks :: "(string \<times> bookmark) list"

text \<open>\<^verbatim>\<open>ChromInstance(userdata_dir)\<close>.\<close>

definition init :: "path \<Rightarrow> chrom_instance" where
  "init d = \<lparr>userdata_dir = d, profiles = [], extensions = [], bookmarks = []\<rparr>"

section \<open>Profile discovery\<close>

definition new_profile :: "path \<Rightarrow> string \<Rightarrow> profile_info \<Rightarrow> profile" where
  "new_profile userdata_dir' profile_id profile_info =
     \<lparr>p_id = profile_id,
      p_name = (case pi_name profile_info of Some v \<Rightarrow> v | None \<Rightarrow> []),
      p_user_name = (case pi_user_name profile_info of Some v \<Rightarrow> v | None \<Rightarrow> []),
      p_gaia_name = (case pi_gaia_name profile_info of Some v \<Rightarrow> v | None \<Rightarrow> []),
      p_gaia_given_name = (case pi_gaia_given_name profile_info of Some v \<Rightarrow> v | None \<Rightarrow> []),
      p_userdata_dir = userdata_dir',
      p_profile_dir = path_join userdata_dir' profile_id,
      p_bookmark_file = [],
      p_extensions = {},
      p_bookmarks = []\<rparr>"

definition fetch_all_profiles :: "filesystem \<Rightarrow> chrom_instance \<Rightarrow> chrom_instance outcome" where
  "fetch_all_profiles fs self =
     (if \<not> is_dir fs (userdata_dir self) then (self, None)
      else
        let local_state_file = path_join (userdata_dir self) ''Local State'' in
        if \<not> is_file fs local_state_file then (self, None)
        else
          (case read_json fs local_state_file of
             Inl e \<Rightarrow> if e = JSONDecodeError then (self, None) else (self, Some e)
           | Inr local_state_data \<Rightarrow>
               (case j_info_cache local_state_data of
                  None \<Rightarrow> (self, None)
                | Some profiles_info \<Rightarrow>
                    (self\<lparr>profiles :=
                       foldl (\<lambda>ps (profile_id, profile_info).
                                AList.update profile_id
                                  (new_profile (userdata_dir self) profile_id profile_info) ps)
                             [] profiles_info\<rparr>,
                     None))))"

section \<open>Extension discovery\<close>

type_synonym ext_state = "(string \<times> extension) list \<times> profile"

text \<open>
  Line 88: \<^verbatim>\<open>icons_info.get(str(max(map(int, icons_info.keys()), default="")), "")\<close>.
  Every key goes through \<^verbatim>\<open>int\<close>, the largest number goes back through \<^verbatim>\<open>str\<close>, and the
  resulting string is looked up.
\<close>

definition icon_short_path :: "(string \<times> string) list \<Rightarrow> error + string" where
  "icon_short_path icons_info =
     (case those (map (\<lambda>k. py_int k) (map fst icons_info)) of
        None \<Rightarrow> Inl ValueError
      | Some sizes \<Rightarrow>
          (let key = (if sizes = [] then [] else py_str (Max (set sizes)))
           in Inr (case map_of icons_info key of Some v \<Rightarrow> v | None \<Rightarrow> [])))"

definition empty_manifest :: manifest where
  "empty_manifest = \<lparr>m_name = None, m_description = None, m_icons = None\<rparr>"

text \<open>
  Lines 74 to 85: the manifest and the icon base directory of an extension, \<open>None\<close> when
  the loop goes on to the next identifier.
\<close>

definition resolve_manifest ::
  "filesystem \<Rightarrow> path \<Rightarrow> ext_set \<Rightarrow> path \<Rightarrow> error + (manifest \<times> path) option" where
  "resolve_manifest fs ext_dir ext_set ext_path =
     (if path_exists fs ext_path then
        (case read_json fs (path_join ext_path ''manifest.json'') of
           Inl e \<Rightarrow> Inl e
         | Inr manifest_file \<Rightarrow> Inr (Some (j_manifest manifest_file, ext_path)))
      else if path_exists fs (path_join ext_dir ext_path) then
        Inr (Some ((case es_manifest ext_set of Some m \<Rightarrow> m | None \<Rightarrow> empty_manifest),
                   path_join ext_dir ext_path))
      else Inr None)"

text \<open>The body of the loop of \<^verbatim>\<open>_fetch_extensions_from_one_profile\<close>, for one identifier.\<close>

definition fetch_extension :: "filesystem \<Rightarrow> string \<times> ext_set \<Rightarrow> ext_state \<Rightarrow> ext_state outcome" where
  "fetch_extension fs entry st =
     (case entry of (ext_id, ext_set) \<Rightarrow>
      case st of (exts, profile) \<Rightarrow>
        (case map_of exts ext_id of
           Some ext \<Rightarrow>
             ((AList.update ext_id (ext\<lparr>e_profiles := insert (p_id profile) (e_profiles ext)\<rparr>) exts,
               profile\<lparr>p_extensions := insert ext_id (p_extensions profile)\<rparr>), None)
         | None \<Rightarrow>
             let ext_dir = path_join (p_profile_dir profile) ''Extensions'' in
             if \<not> is_dir fs ext_dir then (st, None)
             else
               let ext_path = (case es_path ext_set of Some v \<Rightarrow> v | None \<Rightarrow> []) in
               if length ext_path = 0 then (st, None)
               else
                 (case resolve_manifest fs ext_dir ext_set ext_path of
                    Inl e \<Rightarrow> (st, Some e)
                  | Inr None \<Rightarrow> (st, None)
                  | Inr (Some (manifest_data, icon_parent_path)) \<Rightarrow>
                      (case icon_short_path
                              (case m_icons manifest_data of Some v \<Rightarrow> v | None \<Rightarrow> []) of
                         Inl e \<Rightarrow> (st, Some e)
                       | Inr icon_short \<Rightarrow>
                           let icon_path = path_join icon_parent_path icon_short in
                           ((AList.update ext_id
                               \<lparr>e_id = ext_id,
                                e_name = (case m_name manifest_data of Some v \<Rightarrow> v | None \<Rightarrow> []),
                                e_description =
                                  (case m_description manifest_data of Some v \<Rightarrow> v | None \<Rightarrow> []),
                                e_icon = (if is_file fs icon_path then icon_path else []),
                                e_profiles = {p_id profile}\<rparr> exts,
                             profile\<lparr>p_extensions := insert ext_id (p_extensions profile)\<rparr>),
                            None)))))"

definition fetch_extensions_from_one_profile ::
  "filesystem \<Rightarrow> (string \<times> ext_set) list \<Rightarrow> ext_state \<Rightarrow> ext_state outcome" where
  "fetch_extensions_from_one_profile fs ext_settings st =
     for_each (fetch_extension fs) ext_settings st"

text \<open>The body of the loop of \<^verbatim>\<open>fetch_extensions_from_all_profiles\<close>, for one profile.\<close>

definition fetch_extensions_profile ::
  "filesystem \<Rightarrow> string \<Rightarrow> chrom_instance \<Rightarrow> chrom_instance outcome" where
  "fetch_extensions_profile fs profile_id self =
     (case map_of (profiles self) profile_id of
        None \<Rightarrow> (self, Some KeyError)
      | Some profile \<Rightarrow>
          let secure_pref_file = path_join (p_profile_dir profile) ''Secure Preferences'' in
          if \<not> is_file fs secure_pref_file then (self, None)
          else
            (case read_json fs secure_pref_file of
               Inl e \<Rightarrow> if e = JSONDecodeError then (self, None) else (self, Some e)
             | Inr secure_pref_data \<Rightarrow>
                 (case j_ext_settings secure_pref_data of
                    None \<Rightarrow> (self, None)
                  | Some ext_settings \<Rightarrow>
                      (case fetch_extensions_from_one_profile fs ext_settings
                              (extensions self, profile) of
                         ((exts', profile'), e) \<Rightarrow>
                           (self\<lparr>extensions := exts',
                                 profiles := AList.update profile_id profile' (profiles self)\<rparr>,
                            e)))))"

definition fetch_extensions_from_all_profiles ::
  "filesystem \<Rightarrow> chrom_instance \<Rightarrow> chrom_instance outcome" where
  "fetch_extensions_from_all_profiles fs self =
     for_each (fetch_extensions_profile fs) (map fst (profiles self)) (self\<lparr>extensions := []\<rparr>)"

section \<open>Bookmark discovery\<close>

type_synonym bmk_state = "(string \<times> bookmark) list \<times> profile"

function fetch_bookmarks_from_one_type :: "node \<Rightarrow> string list \<Rightarrow> bmk_state \<Rightarrow> bmk_state outcome"
  and fetch_bookmarks_children :: "node list \<Rightarrow> string list \<Rightarrow> bmk_state \<Rightarrow> bmk_state outcome"
where
  "fetch_bookmarks_from_one_type bookmark_info path_ls (bmks, profile) =
     (case n_type bookmark_info of
        None \<Rightarrow> ((bmks, profile), Some KeyError)
      | Some t \<Rightarrow>
          if t = ''url'' then
            (case n_url bookmark_info of
               None \<Rightarrow> ((bmks, profile), Some KeyError)
             | Some url \<Rightarrow>
                 let bmk_path = py_join ''/'' path_ls;
                     profile' = profile\<lparr>p_bookmarks := AList.update url bmk_path (p_bookmarks profile)\<rparr>
                 in
                   (case map_of bmks url of
                      Some b \<Rightarrow>
                        ((AList.update url
                            (b\<lparr>b_profiles := AList.update (p_id profile) bmk_path (b_profiles b)\<rparr>)
                            bmks,
                          profile'), None)
                    | None \<Rightarrow>
                        (case n_name bookmark_info of
                           None \<Rightarrow> ((bmks, profile'), Some KeyError)
                         | Some nm \<Rightarrow>
                             ((AList.update url
                                 \<lparr>b_name = nm, b_url = url,
                                  b_profiles = [(p_id profile, bmk_path)]\<rparr> bmks,
                               profile'), None))))
          else if t = ''folder'' then
            (case n_name bookmark_info of
               None \<Rightarrow> ((bmks, profile), Some KeyError)
             | Some nm \<Rightarrow>
                 (case n_children bookmark_info of
                    None \<Rightarrow> ((bmks, profile), Some KeyError)
                  | Some children \<Rightarrow>
                      fetch_bookmarks_children children (path_ls @ [nm]) (bmks, profile)))
          else ((bmks, profile), None))"
| "fetch_bookmarks_children [] new_path_ls st = (st, None)"
| "fetch_bookmarks_children (child # children) new_path_ls st =
     (case fetch_bookmarks_from_one_type child new_path_ls st of
        (st', None) \<Rightarrow> fetch_bookmarks_children children new_path_ls st'
      | (st', Some e) \<Rightarrow> (st', Some e))"
  by pat_completeness auto
termination
proof (relation "measure (\<lambda>x. case x of
                     Inl (info, path_ls, st) \<Rightarrow> size info
                   | Inr (cs, path_ls, st) \<Rightarrow> size_list size cs)")
  fix bookmark_info :: node and children :: "node list"
  assume "n_children bookmark_info = Some children"
  then have "size_list size children < size bookmark_info"
    by (cases bookmark_info) simp
  then show "\<And>path_ls bmks profile nm.
      (Inr (children, path_ls @ [nm], bmks, profile), Inl (bookmark_info, path_ls, bmks, profile))
        \<in> measure (\<lambda>x. case x of
                     Inl (info, path_ls, st) \<Rightarrow> size info
                   | Inr (cs, path_ls, st) \<Rightarrow> size_list size cs)"
    by simp
qed auto

text \<open>The body of the loop of \<^verbatim>\<open>fetch_bookmarks_from_all_profiles\<close>, for one profile.\<close>

definition fetch_bookmarks_profile ::
  "filesystem \<Rightarrow> string \<Rightarrow> chrom_instance \<Rightarrow> chrom_instance outcome" where
  "fetch_bookmarks_profile fs profile_id self =
     (case map_of (profiles self) profile_id of
        None \<Rightarrow> (self, Some KeyError)
      | Some profile \<Rightarrow>
          let bookmark_file = path_join (p_profile_dir profile) ''Bookmarks'' in
          if \<not> is_file fs bookmark_file then (self, None)
          else
            let profile1 = profile\<lparr>p_bookmark_file := bookmark_file\<rparr>;
                self1 = self\<lparr>profiles := AList.update profile_id profile1 (profiles self)\<rparr>
            in
              (case read_json fs bookmark_file of
                 Inl e \<Rightarrow> if e = JSONDecodeError then (self1, None) else (self1, Some e)
               | Inr bookmark_data \<Rightarrow>
                   (case j_roots bookmark_data of
                      None \<Rightarrow> (self1, None)
                    | Some bookmarks_info \<Rightarrow>
                        (case for_each
                                (\<lambda>(bmk_type, bookmark_info).
                                   fetch_bookmarks_from_one_type bookmark_info [[]])
                                bookmarks_info (bookmarks self, profile1) of
                           ((bmks', profile'), e) \<Rightarrow>
                             (self\<lparr>bookmarks := bmks',
                                   profiles := AList.update profile_id profile' (profiles self)\<rparr>,
                              e)))))"

definition fetch_bookmarks_from_all_profiles ::
  "filesystem \<Rightarrow> chrom_instance \<Rightarrow> chrom_instance outcome" where
  "fetch_bookmarks_from_all_profiles fs self =
     for_each (fetch_bookmarks_profile fs) (map fst (profiles self)) (self\<lparr>bookmarks := []\<rparr>)"

section \<open>Bookmark deletion\<close>

text \<open>Lines 191 to 199: the two indices after one bookmark has been popped from the tree.\<close>

definition remove_bookmark :: "string \<Rightarrow> bmk_state \<Rightarrow> bmk_state" where
  "remove_bookmark url st =
     (case st of (bmks, profile) \<Rightarrow>
        (case map_of bmks url of
           None \<Rightarrow> bmks
         | Some b \<Rightarrow>
             if map_of (b_profiles b) (p_id profile) \<noteq> None then
               let b' = b\<lparr>b_profiles := AList.delete (p_id profile) (b_profiles b)\<rparr> in
               if length (b_profiles b') = 0 then AList.delete url bmks
               else AList.update url b' bmks
             else bmks,
         if map_of (p_bookmarks profile) url \<noteq> None
         then profile\<lparr>p_bookmarks := AList.delete url (p_bookmarks profile)\<rparr>
         else profile))"

text \<open>\<^verbatim>\<open>children.pop(i)\<close>, for an index in range.\<close>

definition pop :: "nat \<Rightarrow> 'a list \<Rightarrow> 'a list" where
  "pop i xs = take i xs @ drop (Suc i) xs"

definition set_children :: "node \<Rightarrow> node list \<Rightarrow> node" where
  "set_children n cs = Node (n_type n) (n_name n) (n_url n) (Some cs)"

text \<open>
  \<^verbatim>\<open>_delete_bookmarks_in_one_folder\<close>.  The loop \<^verbatim>\<open>for i in range(len(children) - 1, -1, -1)\<close>
  is \<open>delete_children\<close>, whose counter is the number of indices still to visit: at
  \<open>Suc i\<close> it visits index \<open>i\<close> of the list as it is by then.  Reading \<^verbatim>\<open>children[i]\<close> out
  of range is \<^verbatim>\<open>IndexError\<close>.  The functions return the node, or the list of children,
  as the in-place mutation leaves it.
\<close>

function delete_bookmarks_in_one_folder ::
    "string list \<Rightarrow> node \<Rightarrow> bmk_state \<Rightarrow> (node \<times> bmk_state) outcome"
  and delete_children ::
    "string list \<Rightarrow> node list \<Rightarrow> nat \<Rightarrow> bmk_state \<Rightarrow> (node list \<times> bmk_state) outcome"
where
  "delete_bookmarks_in_one_folder urls_to_delete bookmark_info st =
     (case n_type bookmark_info of
        None \<Rightarrow> ((bookmark_info, st), Some KeyError)
      | Some t \<Rightarrow>
          if t \<noteq> ''folder'' then ((bookmark_info, st), None)
          else
            (case n_children bookmark_info of
               None \<Rightarrow> ((bookmark_info, st), Some KeyError)
             | Some children \<Rightarrow>
                 (case delete_children urls_to_delete children (length children) st of
                    ((children', st'), e) \<Rightarrow> ((set_children bookmark_info children', st'), e))))"
| "delete_children urls_to_delete children 0 st = ((children, st), None)"
| "delete_children urls_to_delete children (Suc i) st =
     (if length children \<le> i then ((children, st), Some IndexError)
      else
        (case n_type (children ! i) of
           None \<Rightarrow> ((children, st), Some KeyError)
         | Some t \<Rightarrow>
             if t = ''url'' then
               (case n_url (children ! i) of
                  None \<Rightarrow> ((children, st), Some KeyError)
                | Some url \<Rightarrow>
                    if url \<in> set urls_to_delete
                    then delete_children urls_to_delete (pop i children) i (remove_bookmark url st)
                    else delete_children urls_to_delete children i st)
             else
               (case delete_bookmarks_in_one_folder urls_to_delete (children ! i) st of
                  ((child', st'), None) \<Rightarrow>
                    delete_children urls_to_delete (children[i := child']) i st'
                | ((child', st'), Some e) \<Rightarrow> ((children[i := child'], st'), Some e))))"
  by pat_completeness auto
termination
proof (relation "measure (\<lambda>x. case x of
                     Inl (urls, info, st) \<Rightarrow> size info
                   | Inr (urls, cs, k, st) \<Rightarrow> size_list size (take k cs))")
  fix bookmark_info :: node and children :: "node list"
  assume "n_children bookmark_info = Some children"
  then have "size_list size children < size bookmark_info"
    by (cases bookmark_info) simp
  then show "\<And>urls_to_delete st.
      (Inr (urls_to_delete, children, length children, st), Inl (urls_to_delete, bookmark_info, st))
        \<in> measure (\<lambda>x. case x of
                     Inl (urls, info, st) \<Rightarrow> size info
                   | Inr (urls, cs, k, st) \<Rightarrow> size_list size (take k cs))"
    by simp
qed (auto simp: pop_def take_Suc_conv_app_nth)

text \<open>
  The loop over the roots in \<^verbatim>\<open>delete_bookmarks_from_profiles\<close>; it returns the roots as
  the in-place mutation leaves them.
\<close>

fun delete_roots ::
  "string list \<Rightarrow> (string \<times> node) list \<Rightarrow> bmk_state \<Rightarrow> ((string \<times> node) list \<times> bmk_state) outcome"
where
  "delete_roots urls_to_delete [] st = (([], st), None)"
| "delete_roots urls_to_delete ((bmk_root, bookmark_info) # rest) st =
     (case delete_bookmarks_in_one_folder urls_to_delete bookmark_info st of
        ((info', st'), Some e) \<Rightarrow> (((bmk_root, info') # rest, st'), Some e)
      | ((info', st'), None) \<Rightarrow>
          (case delete_roots urls_to_delete rest st' of
             ((rest', st''), e) \<Rightarrow> (((bmk_root, info') # rest', st''), e)))"

text \<open>\<^verbatim>\<open>p.unlink(missing_ok=True)\<close>.\<close>

definition unlink :: "filesystem \<Rightarrow> path \<Rightarrow> error + filesystem" where
  "unlink fs p =
     (case fs p of
        None \<Rightarrow> Inr fs
      | Some Dir \<Rightarrow> Inl IsADirectoryError
      | Some (File t) \<Rightarrow> Inr (fs(p := None)))"

text \<open>\<^verbatim>\<open>p.write_text(json.dumps(data, ...))\<close>, on a path that has just been read as a file.\<close>

definition write_json :: "filesystem \<Rightarrow> path \<Rightarrow> json_data \<Rightarrow> filesystem" where
  "write_json fs p d = fs(p \<mapsto> File (Json d))"

text \<open>Deletion changes files as well as the engine: its state is the pair of both.\<close>

type_synonym world = "filesystem \<times> chrom_instance"

text \<open>The body of the loop of \<^verbatim>\<open>delete_bookmarks_from_profiles\<close>, for one profile.\<close>

definition delete_bookmarks_profile :: "string list \<Rightarrow> string \<Rightarrow> world \<Rightarrow> world outcome" where
  "delete_bookmarks_profile urls_to_delete profile_id w =
     (case w of (fs, self) \<Rightarrow>
        (case map_of (profiles self) profile_id of
           None \<Rightarrow> (w, Some KeyError)
         | Some profile \<Rightarrow>
             (case unlink fs (path_join (p_profile_dir profile) ''Bookmarks.bak'') of
                Inl e \<Rightarrow> (w, Some e)
              | Inr fs1 \<Rightarrow>
                  if length (p_bookmark_file profile) = 0 then ((fs1, self), None)
                  else
                    (case read_json fs1 (p_bookmark_file profile) of
                       Inl e \<Rightarrow>
                         if e = JSONDecodeError then ((fs1, self), None)
                         else ((fs1, self), Some e)
                     | Inr bookmark_data \<Rightarrow>
                         let data1 = bookmark_data\<lparr>j_checksum := None\<rparr> in
                         (case j_roots data1 of
                            None \<Rightarrow>
                              ((write_json fs1 (p_bookmark_file profile) data1, self), None)
                          | Some roots \<Rightarrow>
                              (case delete_roots urls_to_delete roots (bookmarks self, profile) of
                                 ((roots', (bmks', profile')), e) \<Rightarrow>
                                   let self' = self\<lparr>bookmarks := bmks',
                                                    profiles := AList.update profile_id profile'
                                                                  (profiles self)\<rparr>
                                   in
                                     (case e of
                                        Some err \<Rightarrow> ((fs1, self'), Some err)
                                      | None \<Rightarrow>
                                          ((write_json fs1 (p_bookmark_file profile)
                                              (data1\<lparr>j_roots := Some roots'\<rparr>),
                                            self'), None))))))))"

definition delete_bookmarks_from_profiles ::
  "string list \<Rightarrow> string list option \<Rightarrow> world \<Rightarrow> world outcome" where
  "delete_bookmarks_from_profiles urls_to_delete profile_ids w =
     for_each (delete_bookmarks_profile urls_to_delete)
       (case profile_ids of None \<Rightarrow> map fst (profiles (snd w)) | Some ids \<Rightarrow> ids) w"

section \<open>Example data\<close>

definition ex_dir :: filesystem where
  "ex_dir = [''/ud'' \<mapsto> Dir]"

definition ex_no_keys :: json_data where
  "ex_no_keys =
     \<lparr>j_info_cache = None, j_ext_settings = None, j_roots = None, j_checksum = None,
      j_manifest = empty_manifest\<rparr>"

definition ex_old_profile :: profile where
  "ex_old_profile =
     \<lparr>p_id = ''Default'', p_name = ''Me'', p_user_name = [], p_gaia_name = [],
      p_gaia_given_name = [], p_userdata_dir = ''/ud'', p_profile_dir = ''/ud/Default'',
      p_bookmark_file = [], p_extensions = {}, p_bookmarks = []\<rparr>"

definition ex_engine :: chrom_instance where
  "ex_engine =
     \<lparr>userdata_dir = ''/ud'', profiles = [(''Default'', ex_old_profile)], extensions = [],
      bookmarks = []\<rparr>"

definition ex_offline_set :: ext_set where
  "ex_offline_set = \<lparr>es_path = Some ''/opt/ext'', es_manifest = None\<rparr>"

definition ex_prefs :: json_data where
  "ex_prefs = ex_no_keys\<lparr>j_ext_settings := Some [(''abc'', ex_offline_set)]\<rparr>"

definition ex_fs_no_manifest :: filesystem where
  "ex_fs_no_manifest =
     [''/ud'' \<mapsto> Dir, ''/ud/Default'' \<mapsto> Dir, ''/ud/Default/Extensions'' \<mapsto> Dir,
      ''/ud/Default/Secure Preferences'' \<mapsto> File (Json ex_prefs), ''/opt/ext'' \<mapsto> Dir]"

definition ex_bookmarks_no_type :: json_data where
  "ex_bookmarks_no_type =
     ex_no_keys\<lparr>j_roots := Some [(''bookmark_bar'', Node None (Some ''Bar'') None (Some []))]\<rparr>"

definition ex_tree :: node where
  "ex_tree =
     Node (Some ''folder'') (Some ''Bar'') None
       (Some [Node (Some ''url'') (Some ''A'') (Some ''http://a'') None,
              Node (Some ''folder'') (Some ''Work'') None
                (Some [Node (Some ''url'') (Some ''B'') (Some ''http://b'') None])])"

definition ex_bookmark_data :: json_data where
  "ex_bookmark_data =
     ex_no_keys\<lparr>j_roots := Some [(''bookmark_bar'', ex_tree)], j_checksum := Some ''c0ffee''\<rparr>"

definition ex_two_profiles :: chrom_instance where
  "ex_two_profiles =
     \<lparr>userdata_dir = ''/ud'',
      profiles =
        [(''Default'',
          ex_old_profile\<lparr>p_bookmark_file := ''/ud/Default/Bookmarks'',
                         p_bookmarks := [(''http://a'', ''/Bar''), (''http://b'', ''/Bar/Work'')]\<rparr>),
         (''Work'', ex_old_profile\<lparr>p_id := ''Work'', p_profile_dir := ''/ud/Work''\<rparr>)],
      extensions = [],
      bookmarks =
        [(''http://a'',
          \<lparr>b_name = ''A'', b_url = ''http://a'', b_profiles = [(''Default'', ''/Bar'')]\<rparr>),
         (''http://b'',
          \<lparr>b_name = ''B'', b_url = ''http://b'', b_profiles = [(''Default'', ''/Bar/Work'')]\<rparr>)]\<rparr>"

definition ex_fs_two :: filesystem where
  "ex_fs_two =
     [''/ud/Default/Bookmarks'' \<mapsto> File (Json ex_bookmark_data),
      ''/ud/Default/Bookmarks.bak'' \<mapsto> File Malformed,
      ''/ud/Work/Bookmarks.bak'' \<mapsto> File Malformed]"

definition ex_five :: node where
  "ex_five =
     Node (Some ''folder'') (Some ''Bar'') None
       (Some [Node (Some ''url'') (Some ''A'') (Some ''http://a'') None,
              Node (Some ''folder'') (Some ''Work'') None
                (Some [Node (Some ''url'') (Some ''B'') (Some ''http://b'') None,
                       Node (Some ''url'') (Some ''E'') (Some ''http://e'') None]),
              Node (Some ''url'') (Some ''B'') (Some ''http://b'') None,
              Node (Some ''url'') (Some ''C'') (Some ''http://c'') None,
              Node (Some ''url'') (Some ''D'') (Some ''http://d'') None])"

section \<open>What deletion is to leave of a tree\<close>

text \<open>
  The tree that deletion is to produce, in the words of the description: in every folder,
  the children of type \<^verbatim>\<open>url\<close> whose URL is in the delete set are gone, the other
  children stand in their former order, and every remaining child is itself treated the
  same way.  A node that is not a folder is left as it is.
\<close>

definition deleted :: "string list \<Rightarrow> node \<Rightarrow> bool" where
  "deleted urls c =
     (n_type c = Some ''url'' \<and> (case n_url c of Some u \<Rightarrow> u \<in> set urls | None \<Rightarrow> False))"

fun prune :: "string list \<Rightarrow> node \<Rightarrow> node" where
  "prune urls (Node t n u None) = Node t n u None"
| "prune urls (Node t n u (Some cs)) =
     (if t = Some ''folder''
      then Node t n u (Some (map (prune urls) (filter (\<lambda>c. \<not> deleted urls c) cs)))
      else Node t n u (Some cs))"

text \<open>
  The nodes on which the deletion walk finds every key it reads: a node has a \<^verbatim>\<open>type\<close>, a
  folder has \<^verbatim>\<open>children\<close>, and a child of type \<^verbatim>\<open>url\<close> has a \<^verbatim>\<open>url\<close>.
\<close>

fun well_formed :: "node \<Rightarrow> bool" where
  "well_formed (Node t n u cs) =
     (t \<noteq> None \<and>
      (t = Some ''folder'' \<longrightarrow>
         (case cs of
            None \<Rightarrow> False
          | Some cs' \<Rightarrow>
              list_all (\<lambda>c. (n_type c = Some ''url'' \<longrightarrow> n_url c \<noteq> None) \<and> well_formed c) cs')))"

definition ex_fs_bookmarks :: filesystem where
  "ex_fs_bookmarks = [''/ud/Default/Bookmarks'' \<mapsto> File (Json ex_bookmark_data)]"

section \<open>What bookmark discovery is to record\<close>

text \<open>
  The folder paths that discovery is to record for a tree, in the words of the
  description: for every node of type \<^verbatim>\<open>url\<close>, in the order of the walk, its URL with
  the \<^verbatim>\<open>/\<close>-join of the names accumulated so far; a folder adds its name for the
  nodes below it.
\<close>

fun url_paths :: "string list \<Rightarrow> node \<Rightarrow> (string \<times> string) list" where
  "url_paths path_ls (Node t n u cs) =
     (if t = Some ''url'' then
        (case u of Some url \<Rightarrow> [(url, py_join ''/'' path_ls)] | None \<Rightarrow> [])
      else if t = Some ''folder'' then
        (case n of
           None \<Rightarrow> []
         | Some nm \<Rightarrow>
             (case cs of
                None \<Rightarrow> []
              | Some children \<Rightarrow> concat (map (url_paths (path_ls @ [nm])) children)))
      else [])"

text \<open>
  The nodes on which the discovery walk finds every key it reads: a \<^verbatim>\<open>type\<close> everywhere,
  \<^verbatim>\<open>url\<close> and \<^verbatim>\<open>name\<close> on a node of type \<^verbatim>\<open>url\<close>, \<^verbatim>\<open>name\<close> and \<^verbatim>\<open>children\<close> on a
  folder.
\<close>

fun walkable :: "node \<Rightarrow> bool" where
  "walkable (Node t n u cs) =
     (t \<noteq> None \<and>
      (t = Some ''url'' \<longrightarrow> u \<noteq> None \<and> n \<noteq> None) \<and>
      (t = Some ''folder'' \<longrightarrow>
         n \<noteq> None \<and> (case cs of None \<Rightarrow> False | Some children \<Rightarrow> list_all walkable children)))"

text \<open>Recording a list of paths, one after the other, in a URL-to-path mapping.\<close>

definition record_paths :: "(string \<times> string) list \<Rightarrow> (string \<times> string) list \<Rightarrow> (string \<times> string) list" where
  "record_paths ups al = fold (\<lambda>(url, p). AList.update url p) ups al"

text \<open>
  The global index \<open>bmks'\<close> holds, for the profile \<open>pid\<close>, the last path of every URL of
  \<open>ups\<close>, and is \<open>bmks\<close> elsewhere.
\<close>

definition recorded_globally ::
  "(string \<times> bookmark) list \<Rightarrow> (string \<times> bookmark) list \<Rightarrow> (string \<times> string) list \<Rightarrow> string \<Rightarrow> bool" where
  "recorded_globally bmks bmks' ups pid =
     (\<forall>url. case map_of (rev ups) url of
              Some p \<Rightarrow> (\<exists>b. map_of bmks' url = Some b \<and> map_of (b_profiles b) pid = Some p)
            | None \<Rightarrow> map_of bmks' url = map_of bmks url)"

definition ex_online_set :: "(string \<times> string) list \<Rightarrow> ext_set" where
  "ex_online_set icons =
     \<lparr>es_path = Some ''abc/1.0'',
      es_manifest = Some \<lparr>m_name = Some ''Abc'', m_description = None, m_icons = Some icons\<rparr>\<rparr>"

definition ex_fs_online :: "(string \<times> string) list \<Rightarrow> filesystem" where
  "ex_fs_online icons =
     [''/ud/Default/Extensions'' \<mapsto> Dir,
      ''/ud/Default/Extensions/abc/1.0'' \<mapsto> Dir,
      ''/ud/Default/Extensions/abc/1.0/a.png'' \<mapsto> File Malformed,
      ''/ud/Default/Extensions/abc/1.0/b.png'' \<mapsto> File Malformed,
      ''/ud/Default/Secure Preferences'' \<mapsto>
         File (Json (ex_no_keys\<lparr>j_ext_settings := Some [(''abc'', ex_online_set icons)]\<rparr>))]"

definition ex_manifest_file :: json_data where
  "ex_manifest_file =
     ex_no_keys\<lparr>j_manifest := \<lparr>m_name = Some ''Offline'', m_description = Some ''An add-on'',
                                 m_icons = Some [(''48'', ''icon.png'')]\<rparr>\<rparr>"

definition ex_fs_offline :: filesystem where
  "ex_fs_offline =
     [''/ud/Default'' \<mapsto> Dir,
      ''/ud/Default/Secure Preferences'' \<mapsto> File (Json ex_prefs),
      ''/opt/ext'' \<mapsto> Dir,
      ''/opt/ext/manifest.json'' \<mapsto> File (Json ex_manifest_file),
      ''/opt/ext/icon.png'' \<mapsto> File Malformed]"

definition ex_fs_offline_ok :: filesystem where
  "ex_fs_offline_ok = ex_fs_offline(''/ud/Default/Extensions'' \<mapsto> Dir)"

section \<open>Consistency of the indices\<close>

text \<open>
  A property of every entry of a dictionary, and of some entry: \<open>P k v\<close> for the keys \<open>k\<close>
  with their values \<open>v = d[k]\<close>.
\<close>

definition dict_all :: "('k \<Rightarrow> 'v \<Rightarrow> bool) \<Rightarrow> ('k \<times> 'v) list \<Rightarrow> bool" where
  "dict_all P d = list_all (\<lambda>k. case map_of d k of None \<Rightarrow> True | Some v \<Rightarrow> P k v) (map fst d)"

definition dict_ex :: "('k \<Rightarrow> 'v \<Rightarrow> bool) \<Rightarrow> ('k \<times> 'v) list \<Rightarrow> bool" where
  "dict_ex P d = list_ex (\<lambda>k. case map_of d k of None \<Rightarrow> False | Some v \<Rightarrow> P k v) (map fst d)"

text \<open>
  Consistency of the extension index with the profiles, as the description states it: every
  indexed identifier is in the extension set of some profile, every identifier in a
  profile's extension set is indexed, and for every indexed Extension and every profile,
  the profile's identifier is in the Extension's profile set exactly when the Extension's
  identifier is in the profile's extension set.
\<close>

definition extension_consistency :: "chrom_instance \<Rightarrow> bool" where
  "extension_consistency self =
     (dict_all (\<lambda>ext_id ext. dict_ex (\<lambda>k p. ext_id \<in> p_extensions p) (profiles self))
        (extensions self)
    \<and> dict_all (\<lambda>k p. \<forall>ext_id \<in> p_extensions p. map_of (extensions self) ext_id \<noteq> None)
        (profiles self)
    \<and> dict_all (\<lambda>ext_id ext.
                  dict_all (\<lambda>k p. (p_id p \<in> e_profiles ext) = (e_id ext \<in> p_extensions p))
                    (profiles self))
        (extensions self))"

text \<open>
  What profile discovery leaves: every profile stands under its own identifier, with no
  extension identifiers.
\<close>

definition profiles_by_id :: "chrom_instance \<Rightarrow> bool" where
  "profiles_by_id self = dict_all (\<lambda>k p. p_id p = k) (profiles self)"

definition no_extensions_yet :: "chrom_instance \<Rightarrow> bool" where
  "no_extensions_yet self = dict_all (\<lambda>k p. p_extensions p = {}) (profiles self)"

text \<open>The loop invariant, on the profiles as a map.\<close>

definition ext_inv :: "(string \<rightharpoonup> profile) \<Rightarrow> (string \<times> extension) list \<Rightarrow> bool" where
  "ext_inv m exts =
     ((\<forall>k p. m k = Some p \<longrightarrow> p_id p = k)
    \<and> (\<forall>ext_id ext. map_of exts ext_id = Some ext \<longrightarrow>
          e_id ext = ext_id \<and> e_profiles ext \<noteq> {} \<and> (\<forall>pid \<in> e_profiles ext. m pid \<noteq> None))
    \<and> (\<forall>k p ext_id. m k = Some p \<longrightarrow>
          (ext_id \<in> p_extensions p) = (\<exists>ext. map_of exts ext_id = Some ext \<and> k \<in> e_profiles ext)))"

definition ex_stale_extensions :: chrom_instance where
  "ex_stale_extensions =
     \<lparr>userdata_dir = ''/ud'',
      profiles = [(''Default'', ex_old_profile\<lparr>p_extensions := {''abc''}\<rparr>)],
      extensions =
        [(''abc'', \<lparr>e_id = ''abc'', e_name = ''Abc'', e_description = [], e_icon = [],
                     e_profiles = {''Default''}\<rparr>)],
      bookmarks = []\<rparr>"

definition ex_fs_shared :: filesystem where
  "ex_fs_shared =
     (ex_fs_online [(''16'', ''a.png''), (''128'', ''b.png'')])
       (''/ud/Work/Secure Preferences'' \<mapsto>
          File (Json (ex_no_keys\<lparr>j_ext_settings := Some [(''abc'', ex_offline_set)]\<rparr>)))"

text \<open>
  Integrity of the bookmark index, as the description states it: every URL in a profile's
  URL-to-path mapping is in the global index, where the profile's identifier has the same
  path; every entry of a Bookmark's profile-path mapping names a profile of the engine
  whose mapping has that path for the URL; and no indexed Bookmark has an empty
  profile-path mapping.
\<close>

definition bookmark_integrity :: "chrom_instance \<Rightarrow> bool" where
  "bookmark_integrity self =
     (dict_all (\<lambda>k p.
         dict_all (\<lambda>url path.
             case map_of (bookmarks self) url of
               None \<Rightarrow> False
             | Some b \<Rightarrow> map_of (b_profiles b) (p_id p) = Some path)
           (p_bookmarks p))
        (profiles self)
    \<and> dict_all (\<lambda>url b.
         b_profiles b \<noteq> []
         \<and> dict_all (\<lambda>pid path.
               case map_of (profiles self) pid of
                 None \<Rightarrow> False
               | Some p \<Rightarrow> map_of (p_bookmarks p) url = Some path)
             (b_profiles b))
        (bookmarks self))"

text \<open>What profile discovery leaves: no profile has a bookmark yet.\<close>

definition no_bookmarks_yet :: "chrom_instance \<Rightarrow> bool" where
  "no_bookmarks_yet self = dict_all (\<lambda>k p. p_bookmarks p = []) (profiles self)"

text \<open>The invariant of the bookmark loops, on the profiles as a map.\<close>

definition bmk_inv :: "(string \<rightharpoonup> profile) \<Rightarrow> (string \<times> bookmark) list \<Rightarrow> bool" where
  "bmk_inv m bmks =
     ((\<forall>k p. m k = Some p \<longrightarrow> p_id p = k)
    \<and> (\<forall>k p url path. m k = Some p \<longrightarrow>
          (map_of (p_bookmarks p) url = Some path)
            = (\<exists>b. map_of bmks url = Some b \<and> map_of (b_profiles b) k = Some path))
    \<and> (\<forall>url b. map_of bmks url = Some b \<longrightarrow>
          b_profiles b \<noteq> [] \<and> (\<forall>pid path. map_of (b_profiles b) pid = Some path \<longrightarrow> m pid \<noteq> None)))"

section \<open>Dictionaries\<close>

text \<open>
  A Python dictionary holds each key once.  For the association lists that stand for
  \<^verbatim>\<open>self.profiles\<close> and for the \<^verbatim>\<open>bookmarks\<close> of every profile, this is distinctness of
  the keys.
\<close>

definition keys_distinct :: "chrom_instance \<Rightarrow> bool" where
  "keys_distinct self =
     (distinct (map fst (profiles self))
      \<and> dict_all (\<lambda>profile_id profile. distinct (map fst (p_bookmarks profile))) (profiles self))"

section \<open>Profile discovery: failures\<close>



section \<open>Evaluating the model\<close>

lemmas ex_defs =
  ex_dir_def ex_no_keys_def ex_old_profile_def ex_engine_def empty_manifest_def
  ex_offline_set_def ex_prefs_def ex_fs_no_manifest_def ex_bookmarks_no_type_def
  ex_tree_def ex_bookmark_data_def ex_two_profiles_def ex_fs_two_def ex_five_def
  ex_fs_bookmarks_def

lemmas fs_defs = read_json_def is_file_def is_dir_def path_exists_def path_join_def Let_def

lemmas ext_defs =
  fetch_extensions_from_all_profiles_def fetch_extensions_profile_def
  fetch_extensions_from_one_profile_def fetch_extension_def resolve_manifest_def

lemmas bmk_defs = fetch_bookmarks_from_all_profiles_def fetch_bookmarks_profile_def

lemmas del_defs =
  delete_bookmarks_from_profiles_def delete_bookmarks_profile_def unlink_def write_json_def
  remove_bookmark_def pop_def set_children_def

section \<open>Loops\<close>

lemma for_each_append:
  "for_each f (xs @ ys) s =
     (case for_each f xs s of (s', None) \<Rightarrow> for_each f ys s' | (s', Some e) \<Rightarrow> (s', Some e))"
  by (induction xs arbitrary: s) (auto split: prod.splits option.splits)

lemma for_each_invariant:
  assumes step: "\<And>x s s' e. P s \<Longrightarrow> f x s = (s', e) \<Longrightarrow> P s'"
    and "P s" and "for_each f xs s = (s', e)"
  shows "P s'"
  using assms(2,3)
proof (induction xs arbitrary: s)
  case Nil
  then show ?case by simp
next
  case (Cons x xs)
  obtain s1 e1 where b: "f x s = (s1, e1)" by (cases "f x s")
  with Cons.prems(1) have p1: "P s1" using step by blast
  show ?case
  proof (cases e1)
    case None
    with b Cons.prems(2) have "for_each f xs s1 = (s', e)" by simp
    with Cons.IH p1 show ?thesis by blast
  next
    case (Some a)
    with b Cons.prems(2) have "s' = s1" by simp
    with p1 show ?thesis by simp
  qed
qed

section \<open>Exceptions that leave a public operation\<close>

text \<open>
  C4.  The claim is that no missing path, malformed file or missing key leaves a discovery
  or deletion call as an exception.  The code guards the three files it reads per profile,
  but not the manifest of an offline install (line 77) nor the keys of a bookmark node
  (line 130).  With the directory \<^verbatim>\<open>/opt/ext\<close> present and no \<^verbatim>\<open>manifest.json\<close> in it,
  extension discovery ends with \<^verbatim>\<open>FileNotFoundError\<close>; with a malformed manifest, with
  \<^verbatim>\<open>JSONDecodeError\<close>; and bookmark discovery over a root node with no \<^verbatim>\<open>type\<close> key ends
  with \<^verbatim>\<open>KeyError\<close>.
\<close>

theorem discovery_raises_on_bad_manifest_or_node:
  "snd (fetch_extensions_from_all_profiles ex_fs_no_manifest ex_engine) = Some FileNotFoundError
   \<and> snd (fetch_extensions_from_all_profiles
            (ex_fs_no_manifest(''/opt/ext/manifest.json'' \<mapsto> File Malformed)) ex_engine)
       = Some JSONDecodeError
   \<and> snd (fetch_bookmarks_from_all_profiles
            [''/ud/Default/Bookmarks'' \<mapsto> File (Json ex_bookmarks_no_type)] ex_engine)
       = Some KeyError"
  by (simp add: ex_defs fs_defs ext_defs bmk_defs)

section \<open>Deletion from an unknown profile\<close>

lemma delete_bookmarks_profile_keys:
  assumes "delete_bookmarks_profile urls k w = (w', e)"
  shows "(map_of (profiles (snd w')) pid = None) = (map_of (profiles (snd w)) pid = None)"
  using assms
  by (auto simp: delete_bookmarks_profile_def Let_def update_conv'
           split: prod.splits option.splits sum.splits if_splits)

text \<open>
  C10.  When the list of profile identifiers given to deletion holds an identifier that is
  not a key of the engine's profiles, and the identifiers before it are processed without
  an exception, the call ends with \<^verbatim>\<open>KeyError\<close> in exactly the state the earlier
  identifiers left: their files and index entries are changed, and no identifier after
  the unknown one is processed.
\<close>

theorem delete_unknown_profile_raises:
  assumes unknown: "map_of (profiles (snd w)) pid = None"
    and earlier: "delete_bookmarks_from_profiles urls (Some pre) w = (w1, None)"
  shows "delete_bookmarks_from_profiles urls (Some (pre @ pid # post)) w = (w1, Some KeyError)"
proof -
  have run: "for_each (delete_bookmarks_profile urls) pre w = (w1, None)"
    using earlier by (simp add: delete_bookmarks_from_profiles_def)
  have "map_of (profiles (snd w1)) pid = None"
  proof (rule for_each_invariant [where P = "\<lambda>w. map_of (profiles (snd w)) pid = None"])
    show "for_each (delete_bookmarks_profile urls) pre w = (w1, None)" by (rule run)
    show "map_of (profiles (snd w)) pid = None" by (rule unknown)
    show "\<And>x s s' e. map_of (profiles (snd s)) pid = None \<Longrightarrow>
            delete_bookmarks_profile urls x s = (s', e) \<Longrightarrow> map_of (profiles (snd s')) pid = None"
      by (simp add: delete_bookmarks_profile_keys)
  qed
  then have "delete_bookmarks_profile urls pid w1 = (w1, Some KeyError)"
    by (cases w1) (simp add: delete_bookmarks_profile_def)
  with run show ?thesis
    by (simp add: delete_bookmarks_from_profiles_def for_each_append)
qed

theorem delete_unknown_profile_raises_witness:
  "map_of (profiles (snd (ex_fs_two, ex_two_profiles))) ''Nope'' = None
   \<and> snd (delete_bookmarks_from_profiles [''http://b''] (Some [''Default''])
            (ex_fs_two, ex_two_profiles)) = None
   \<and> delete_bookmarks_from_profiles [''http://b''] (Some ([''Default''] @ ''Nope'' # [''Work'']))
        (ex_fs_two, ex_two_profiles)
      = (fst (delete_bookmarks_from_profiles [''http://b''] (Some [''Default''])
                (ex_fs_two, ex_two_profiles)),
         Some KeyError)
   \<and> fst (fst (delete_bookmarks_from_profiles [''http://b''] (Some [''Default''])
                 (ex_fs_two, ex_two_profiles)))
        ''/ud/Default/Bookmarks.bak'' = None
   \<and> fst (fst (delete_bookmarks_from_profiles [''http://b''] (Some [''Default''])
                 (ex_fs_two, ex_two_profiles)))
        ''/ud/Work/Bookmarks.bak'' = Some (File Malformed)
   \<and> map fst (bookmarks (snd (fst (delete_bookmarks_from_profiles [''http://b'']
                                     (Some [''Default'']) (ex_fs_two, ex_two_profiles)))))
       = [''http://a'']"
proof -
  have e: "snd (delete_bookmarks_from_profiles [''http://b''] (Some [''Default''])
                 (ex_fs_two, ex_two_profiles)) = None"
    by (simp add: ex_defs fs_defs del_defs)
  have u: "map_of (profiles (snd (ex_fs_two, ex_two_profiles))) ''Nope'' = None"
    by (simp add: ex_defs)
  have r: "delete_bookmarks_from_profiles [''http://b''] (Some [''Default''])
             (ex_fs_two, ex_two_profiles)
       = (fst (delete_bookmarks_from_profiles [''http://b''] (Some [''Default''])
                 (ex_fs_two, ex_two_profiles)), None)"
    using e by (simp add: prod_eq_iff)
  note t = delete_unknown_profile_raises [OF u r, of "[''Work'']"]
  have f1: "fst (fst (delete_bookmarks_from_profiles [''http://b''] (Some [''Default''])
                       (ex_fs_two, ex_two_profiles)))
        ''/ud/Default/Bookmarks.bak'' = None"
    by (simp add: ex_defs fs_defs del_defs)
  have f2: "fst (fst (delete_bookmarks_from_profiles [''http://b''] (Some [''Default''])
                       (ex_fs_two, ex_two_profiles)))
        ''/ud/Work/Bookmarks.bak'' = Some (File Malformed)"
    by (simp add: ex_defs fs_defs del_defs)
  have f3: "map fst (bookmarks (snd (fst (delete_bookmarks_from_profiles [''http://b'']
                                           (Some [''Default'']) (ex_fs_two, ex_two_profiles)))))
       = [''http://a'']"
    by (simp add: ex_defs fs_defs del_defs)
  show ?thesis using e u t f1 f2 f3 by simp
qed

section \<open>The deletion walk\<close>

lemma prune_not_folder: "n_type c \<noteq> Some ''folder'' \<Longrightarrow> prune urls c = c"
  by (cases "(urls, c)" rule: prune.cases) auto

lemma take_pop: "i < length xs \<Longrightarrow> take i (pop i xs) = take i xs"
  by (simp add: pop_def)

lemma drop_pop: "i < length xs \<Longrightarrow> drop i (pop i xs) = drop (Suc i) xs"
  by (simp add: pop_def)

lemma length_pop: "i < length xs \<Longrightarrow> length (pop i xs) = length xs - 1"
  by (simp add: pop_def)

lemma drop_update_at: "i < length xs \<Longrightarrow> drop i (xs[i := x]) = x # drop (Suc i) xs"
  by (simp add: Cons_nth_drop_Suc [symmetric] drop_update_swap)

lemma delete_walk:
  "well_formed info \<longrightarrow>
     (\<exists>st'. delete_bookmarks_in_one_folder urls info st = ((prune urls info, st'), None))"
  "k \<le> length cs \<and>
     (\<forall>c \<in> set (take k cs). (n_type c = Some ''url'' \<longrightarrow> n_url c \<noteq> None) \<and> well_formed c) \<longrightarrow>
     (\<exists>st'. delete_children urls cs k st =
        ((map (prune urls) (filter (\<lambda>c. \<not> deleted urls c) (take k cs)) @ drop k cs, st'), None))"
proof (induction urls info st and urls cs k st
       rule: delete_bookmarks_in_one_folder_delete_children.induct)
  case (1 urls info st)
  show ?case
  proof
    assume wf: "well_formed info"
    obtain t n u cs where info: "info = Node t n u cs" by (cases info)
    show "\<exists>st'. delete_bookmarks_in_one_folder urls info st = ((prune urls info, st'), None)"
    proof (cases "t = Some ''folder''")
      case False
      with wf info have "\<exists>x. t = Some x \<and> x \<noteq> ''folder''" by auto
      with info False show ?thesis
        using prune_not_folder [of info urls] by auto
    next
      case True
      with wf info obtain cs' where cs: "cs = Some cs'"
        and ok: "\<forall>c \<in> set cs'. (n_type c = Some ''url'' \<longrightarrow> n_url c \<noteq> None) \<and> well_formed c"
        by (auto simp: list_all_iff split: option.splits)
      from "1.IH" [of "''folder''" cs'] True info cs ok
      obtain st' where "delete_children urls cs' (length cs') st =
          ((map (prune urls) (filter (\<lambda>c. \<not> deleted urls c) cs'), st'), None)"
        by auto
      with True info cs show ?thesis
        by (simp add: set_children_def)
    qed
  qed
next
  case (2 urls cs st)
  show ?case by simp
next
  case (3 urls cs i st)
  show ?case
  proof
    assume a: "Suc i \<le> length cs \<and>
      (\<forall>c \<in> set (take (Suc i) cs). (n_type c = Some ''url'' \<longrightarrow> n_url c \<noteq> None) \<and> well_formed c)"
    then have i: "i < length cs" by simp
    then have tk: "take (Suc i) cs = take i cs @ [cs ! i]"
      by (simp add: take_Suc_conv_app_nth)
    from a tk have okc: "(n_type (cs ! i) = Some ''url'' \<longrightarrow> n_url (cs ! i) \<noteq> None)"
      and wfc: "well_formed (cs ! i)"
      and rest: "\<forall>c \<in> set (take i cs). (n_type c = Some ''url'' \<longrightarrow> n_url c \<noteq> None) \<and> well_formed c"
      by auto
    from wfc obtain t where t: "n_type (cs ! i) = Some t" by (cases "cs ! i") auto
    let ?keep = "\<lambda>c. \<not> deleted urls c"
    show "\<exists>st'. delete_children urls cs (Suc i) st =
        ((map (prune urls) (filter ?keep (take (Suc i) cs)) @ drop (Suc i) cs, st'), None)"
    proof (cases "t = ''url''")
      case True
      with okc t obtain u where u: "n_url (cs ! i) = Some u" by auto
      show ?thesis
      proof (cases "u \<in> set urls")
        case in_set: True
        have "i \<le> length (pop i cs)" using i by (simp add: length_pop)
        with "3.IH"(1) [of t u] i t True u in_set rest
        obtain st' where "delete_children urls (pop i cs) i (remove_bookmark u st) =
          ((map (prune urls) (filter ?keep (take i cs)) @ drop (Suc i) cs, st'), None)"
          by (auto simp: take_pop drop_pop)
        moreover have "deleted urls (cs ! i)" using t True u in_set by (simp add: deleted_def)
        ultimately show ?thesis using i t True u in_set tk by simp
      next
        case not_in: False
        with "3.IH"(2) [of t u] i t True u rest
        obtain st' where "delete_children urls cs i st =
          ((map (prune urls) (filter ?keep (take i cs)) @ drop i cs, st'), None)"
          by auto
        moreover have "\<not> deleted urls (cs ! i)" using t True u not_in by (simp add: deleted_def)
        moreover have "prune urls (cs ! i) = cs ! i"
          using t True by (simp add: prune_not_folder)
        moreover have "drop i cs = cs ! i # drop (Suc i) cs"
          using i by (simp add: Cons_nth_drop_Suc)
        ultimately show ?thesis using i t True u not_in tk by simp
      qed
    next
      case False
      from "3.IH"(3) [of t] i t False wfc
      obtain st1 where d: "delete_bookmarks_in_one_folder urls (cs ! i) st =
          ((prune urls (cs ! i), st1), None)"
        by auto
      have "i \<le> length (cs[i := prune urls (cs ! i)])" using i by simp
      with "3.IH"(4) [of t "(prune urls (cs ! i), st1)" None "prune urls (cs ! i)" st1]
        i t False d rest
      obtain st' where "delete_children urls (cs[i := prune urls (cs ! i)]) i st1 =
          ((map (prune urls) (filter ?keep (take i cs)) @ prune urls (cs ! i) # drop (Suc i) cs, st'), None)"
        by (auto simp: drop_update_at)
      moreover have "\<not> deleted urls (cs ! i)" using t False by (simp add: deleted_def)
      ultimately show ?thesis using i t False d tk by simp
    qed
  qed
qed

text \<open>
  C2.  On a folder node whose nodes carry the keys the walk reads, for every delete set,
  \<open>_delete_bookmarks_in_one_folder\<close> returns normally (the reverse loop never reads an
  index out of range) and leaves the tree \<open>prune\<close> describes: each folder has lost
  exactly its children of type \<^verbatim>\<open>url\<close> whose URL is in the delete set, the remaining
  children keep their order, and the walk has gone into every child that is not of type
  \<^verbatim>\<open>url\<close>, whether or not anything was deleted beside it.
\<close>

theorem delete_walk_prunes:
  assumes "well_formed bookmark_info"
  shows "\<exists>st'. delete_bookmarks_in_one_folder urls_to_delete bookmark_info st
               = ((prune urls_to_delete bookmark_info, st'), None)"
  using assms delete_walk(1) by blast

theorem delete_walk_prunes_witness:
  "well_formed ex_five
   \<and> (\<exists>st'. delete_bookmarks_in_one_folder [''http://b'', ''http://c''] ex_five ([], ex_old_profile)
               = ((prune [''http://b'', ''http://c''] ex_five, st'), None))
   \<and> prune [''http://b'', ''http://c''] ex_five =
       Node (Some ''folder'') (Some ''Bar'') None
         (Some [Node (Some ''url'') (Some ''A'') (Some ''http://a'') None,
                Node (Some ''folder'') (Some ''Work'') None
                  (Some [Node (Some ''url'') (Some ''E'') (Some ''http://e'') None]),
                Node (Some ''url'') (Some ''D'') (Some ''http://d'') None])"
  using delete_walk_prunes [of ex_five "[''http://b'', ''http://c'']" "([], ex_old_profile)"]
  by (simp add: ex_five_def deleted_def)

section \<open>The discovery walk\<close>

lemma recorded_globally_Nil: "recorded_globally bmks bmks [] pid"
  by (simp add: recorded_globally_def)

lemma recorded_globally_append:
  assumes "recorded_globally b0 b1 ups1 pid" and "recorded_globally b1 b2 ups2 pid"
  shows "recorded_globally b0 b2 (ups1 @ ups2) pid"
  unfolding recorded_globally_def
proof
  fix url
  show "case map_of (rev (ups1 @ ups2)) url of
          None \<Rightarrow> map_of b2 url = map_of b0 url
        | Some p \<Rightarrow> \<exists>b. map_of b2 url = Some b \<and> map_of (b_profiles b) pid = Some p"
    using assms [unfolded recorded_globally_def, rule_format, of url]
    by (auto simp: map_add_def split: option.splits)
qed

lemma record_paths_append: "record_paths (xs @ ys) al = record_paths ys (record_paths xs al)"
  by (simp add: record_paths_def)

lemma fetch_walk:
  "walkable info \<longrightarrow>
     (\<exists>bmks'. fetch_bookmarks_from_one_type info path_ls st =
        ((bmks', (snd st)\<lparr>p_bookmarks := record_paths (url_paths path_ls info) (p_bookmarks (snd st))\<rparr>), None)
        \<and> recorded_globally (fst st) bmks' (url_paths path_ls info) (p_id (snd st)))"
  "list_all walkable children \<longrightarrow>
     (\<exists>bmks'. fetch_bookmarks_children children new_path_ls st =
        ((bmks', (snd st)\<lparr>p_bookmarks :=
            record_paths (concat (map (url_paths new_path_ls) children)) (p_bookmarks (snd st))\<rparr>), None)
        \<and> recorded_globally (fst st) bmks' (concat (map (url_paths new_path_ls) children)) (p_id (snd st)))"
proof (induction info path_ls st and children new_path_ls st
       rule: fetch_bookmarks_from_one_type_fetch_bookmarks_children.induct)
  case (1 info path_ls bmks profile)
  show ?case
  proof
    assume wf: "walkable info"
    obtain t n u cs where info: "info = Node t n u cs" by (cases info)
    consider (url) "t = Some ''url''" | (folder) "t = Some ''folder''"
      | (other) x where "t = Some x" "x \<noteq> ''url''" "x \<noteq> ''folder''"
      using wf info by auto
    then show "\<exists>bmks'. fetch_bookmarks_from_one_type info path_ls (bmks, profile) =
        ((bmks', (snd (bmks, profile))\<lparr>p_bookmarks :=
            record_paths (url_paths path_ls info) (p_bookmarks (snd (bmks, profile)))\<rparr>), None)
        \<and> recorded_globally (fst (bmks, profile)) bmks' (url_paths path_ls info) (p_id (snd (bmks, profile)))"
    proof cases
      case url
      with wf info obtain url' nm where "u = Some url'" "n = Some nm" by auto
      with url info show ?thesis
        by (auto simp: record_paths_def recorded_globally_def update_conv' Let_def
                 split: option.splits)
    next
      case folder
      with wf info obtain nm children where n: "n = Some nm" and cs: "cs = Some children"
        and ok: "list_all walkable children"
        by (auto split: option.splits)
      from "1.IH" [of "''folder''" nm children] folder info n cs ok
      show ?thesis by auto
    next
      case other
      with info show ?thesis
        by (auto simp: record_paths_def recorded_globally_def)
    qed
  qed
next
  case (2 new_path_ls st)
  show ?case by (cases st) (simp add: record_paths_def recorded_globally_def)
next
  case (3 child children new_path_ls st)
  show ?case
  proof
    assume "list_all walkable (child # children)"
    then have wc: "walkable child" and wcs: "list_all walkable children" by simp_all
    let ?p1 = "(snd st)\<lparr>p_bookmarks := record_paths (url_paths new_path_ls child) (p_bookmarks (snd st))\<rparr>"
    from "3.IH"(1) wc obtain b1 where
      s1: "fetch_bookmarks_from_one_type child new_path_ls st = ((b1, ?p1), None)"
      and g1: "recorded_globally (fst st) b1 (url_paths new_path_ls child) (p_id (snd st))"
      by auto
    from "3.IH"(2) [of "(b1, ?p1)" None] s1 wcs obtain b2 where
      s2: "fetch_bookmarks_children children new_path_ls (b1, ?p1) =
        ((b2, ?p1\<lparr>p_bookmarks :=
            record_paths (concat (map (url_paths new_path_ls) children)) (p_bookmarks ?p1)\<rparr>), None)"
      and g2: "recorded_globally b1 b2 (concat (map (url_paths new_path_ls) children)) (p_id (snd st))"
      by auto
    from g1 g2 have "recorded_globally (fst st) b2
        (url_paths new_path_ls child @ concat (map (url_paths new_path_ls) children)) (p_id (snd st))"
      by (rule recorded_globally_append)
    with s1 s2 show "\<exists>bmks'. fetch_bookmarks_children (child # children) new_path_ls st =
        ((bmks', (snd st)\<lparr>p_bookmarks :=
            record_paths (concat (map (url_paths new_path_ls) (child # children))) (p_bookmarks (snd st))\<rparr>), None)
        \<and> recorded_globally (fst st) bmks' (concat (map (url_paths new_path_ls) (child # children))) (p_id (snd st))"
      by (simp add: record_paths_append)
  qed
qed

lemma map_of_record_paths:
  "map_of (record_paths ups al) url =
     (case map_of (rev ups) url of Some p \<Rightarrow> Some p | None \<Rightarrow> map_of al url)"
proof (induction ups arbitrary: al)
  case Nil
  show ?case by (simp add: record_paths_def)
next
  case (Cons a ups)
  obtain u p where a: "a = (u, p)" by (cases a)
  have "record_paths (a # ups) al = record_paths ups (AList.update u p al)"
    by (simp add: record_paths_def a)
  then show ?case
    using Cons.IH [of "AList.update u p al"]
    by (auto simp: a update_conv' map_add_def split: option.splits)
qed

text \<open>
  C9.  On a tree whose nodes carry the keys the walk reads, bookmark discovery returns
  normally and records, for every node of type \<^verbatim>\<open>url\<close> it reaches, the \<^verbatim>\<open>/\<close>-join of
  the accumulated list of folder names: in the profile's URL-to-path mapping, and in the
  global index under the profile's identifier (for a URL met more than once, the path of
  the last node).  Every root is walked with the list \<^verbatim>\<open>[""]\<close>, so a URL under the
  folders \<^verbatim>\<open>Bar\<close> and \<^verbatim>\<open>Work\<close> gets the path \<^verbatim>\<open>/Bar/Work\<close>.
\<close>

theorem fetch_records_joined_paths:
  assumes "walkable bookmark_info"
  shows "\<exists>bmks' profile'.
           fetch_bookmarks_from_one_type bookmark_info path_ls (bmks, profile)
             = ((bmks', profile'), None)
         \<and> p_bookmarks profile'
             = record_paths (url_paths path_ls bookmark_info) (p_bookmarks profile)
         \<and> (\<forall>url p. map_of (rev (url_paths path_ls bookmark_info)) url = Some p \<longrightarrow>
                map_of (p_bookmarks profile') url = Some p
              \<and> (\<exists>b. map_of bmks' url = Some b \<and> map_of (b_profiles b) (p_id profile) = Some p))"
proof -
  let ?ups = "url_paths path_ls bookmark_info"
  let ?p' = "profile\<lparr>p_bookmarks := record_paths ?ups (p_bookmarks profile)\<rparr>"
  from fetch_walk(1) [of bookmark_info path_ls "(bmks, profile)"] assms
  obtain bmks' where
    run: "fetch_bookmarks_from_one_type bookmark_info path_ls (bmks, profile) = ((bmks', ?p'), None)"
    and g: "recorded_globally bmks bmks' ?ups (p_id profile)"
    by auto
  have "\<forall>url p. map_of (rev ?ups) url = Some p \<longrightarrow>
          map_of (p_bookmarks ?p') url = Some p
        \<and> (\<exists>b. map_of bmks' url = Some b \<and> map_of (b_profiles b) (p_id profile) = Some p)"
  proof (intro allI impI)
    fix url p
    assume l: "map_of (rev ?ups) url = Some p"
    then have "map_of (p_bookmarks ?p') url = Some p"
      by (simp add: map_of_record_paths)
    moreover from g l
    have "\<exists>b. map_of bmks' url = Some b \<and> map_of (b_profiles b) (p_id profile) = Some p"
      unfolding recorded_globally_def by (auto dest: spec [of _ url])
    ultimately show "map_of (p_bookmarks ?p') url = Some p
        \<and> (\<exists>b. map_of bmks' url = Some b \<and> map_of (b_profiles b) (p_id profile) = Some p)"
      by simp
  qed
  with run show ?thesis by auto
qed

theorem fetch_records_joined_paths_witness:
  "walkable ex_tree
   \<and> url_paths [[]] ex_tree = [(''http://a'', ''/Bar''), (''http://b'', ''/Bar/Work'')]
   \<and> (\<exists>bmks' profile'.
         fetch_bookmarks_from_one_type ex_tree [[]] ([], ex_old_profile) = ((bmks', profile'), None)
       \<and> p_bookmarks profile' = [(''http://a'', ''/Bar''), (''http://b'', ''/Bar/Work'')]
       \<and> map (\<lambda>(url, b). (url, b_profiles b)) bmks'
           = [(''http://a'', [(''Default'', ''/Bar'')]), (''http://b'', [(''Default'', ''/Bar/Work'')])])
   \<and> map (\<lambda>(k, p). (k, p_bookmarks p))
        (profiles (fst (fetch_bookmarks_from_all_profiles ex_fs_bookmarks ex_engine)))
       = [(''Default'', [(''http://a'', ''/Bar''), (''http://b'', ''/Bar/Work'')])]"
proof -
  have w: "walkable ex_tree" by (simp add: ex_tree_def)
  have u: "url_paths [[]] ex_tree = [(''http://a'', ''/Bar''), (''http://b'', ''/Bar/Work'')]"
    by (simp add: ex_tree_def)
  from fetch_records_joined_paths [OF w, of "[[]]" "[]" ex_old_profile]
  obtain bmks' profile' where
    r: "fetch_bookmarks_from_one_type ex_tree [[]] ([], ex_old_profile) = ((bmks', profile'), None)"
    and p: "p_bookmarks profile' = record_paths (url_paths [[]] ex_tree) (p_bookmarks ex_old_profile)"
    by blast
  have p': "p_bookmarks profile' = [(''http://a'', ''/Bar''), (''http://b'', ''/Bar/Work'')]"
    using p u by (simp add: record_paths_def ex_old_profile_def)
  have b: "map (\<lambda>(url, b). (url, b_profiles b)) bmks'
           = [(''http://a'', [(''Default'', ''/Bar'')]), (''http://b'', [(''Default'', ''/Bar/Work'')])]"
    using r by (auto simp: ex_tree_def ex_old_profile_def Let_def)
  have t: "map (\<lambda>(k, p). (k, p_bookmarks p))
        (profiles (fst (fetch_bookmarks_from_all_profiles ex_fs_bookmarks ex_engine)))
       = [(''Default'', [(''http://a'', ''/Bar''), (''http://b'', ''/Bar/Work'')])]"
    by (simp add: ex_defs fs_defs bmk_defs)
  have "\<exists>bmks' profile'.
         fetch_bookmarks_from_one_type ex_tree [[]] ([], ex_old_profile) = ((bmks', profile'), None)
       \<and> p_bookmarks profile' = [(''http://a'', ''/Bar''), (''http://b'', ''/Bar/Work'')]
       \<and> map (\<lambda>(url, b). (url, b_profiles b)) bmks'
           = [(''http://a'', [(''Default'', ''/Bar'')]), (''http://b'', [(''Default'', ''/Bar/Work'')])]"
    using r p' b by (intro exI [of _ bmks'] exI [of _ profile'] conjI)
  with w u t show ?thesis by simp
qed

section \<open>Extension resolution\<close>

lemmas int_defs =
  py_int_def strip_def is_space_def digit_of_def py_str_def nat_digits.simps icon_short_path_def

lemmas ext_ex_defs =
  ex_online_set_def ex_fs_online_def ex_manifest_file_def ex_fs_offline_def ex_fs_offline_ok_def

lemma py_int_str_examples:
  "py_int ''128'' = Some 128" "py_int ''0128'' = Some 128" "py_int '' +1_6 '' = Some 16"
  "py_int ''-5'' = Some (- 5)" "py_int ''1__6'' = None" "py_int ''abc'' = None" "py_int [] = None"
  "py_str 128 = ''128''" "py_str (- 5) = ''-5''" "py_str 0 = ''0''"
  by (simp_all add: int_defs)










lemma update_new_differs:
  assumes "map_of exts ext_id = None"
  shows "AList.update ext_id e exts \<noteq> exts"
proof
  assume "AList.update ext_id e exts = exts"
  then have "map_of (AList.update ext_id e exts) ext_id = map_of exts ext_id" by simp
  with assms show False by (simp add: update_conv')
qed

lemma fetch_extension_new:
  assumes "map_of exts ext_id = None"
  shows "fetch_extension fs (ext_id, ext_set) (exts, profile) =
     (if \<not> is_dir fs (path_join (p_profile_dir profile) ''Extensions'') then ((exts, profile), None)
      else if (case es_path ext_set of Some v \<Rightarrow> v | None \<Rightarrow> []) = [] then ((exts, profile), None)
      else
        (case resolve_manifest fs (path_join (p_profile_dir profile) ''Extensions'') ext_set
                (case es_path ext_set of Some v \<Rightarrow> v | None \<Rightarrow> []) of
           Inl e \<Rightarrow> ((exts, profile), Some e)
         | Inr None \<Rightarrow> ((exts, profile), None)
         | Inr (Some (manifest_data, icon_parent_path)) \<Rightarrow>
             (case icon_short_path (case m_icons manifest_data of Some v \<Rightarrow> v | None \<Rightarrow> []) of
                Inl e \<Rightarrow> ((exts, profile), Some e)
              | Inr icon_short \<Rightarrow>
                  ((AList.update ext_id
                      \<lparr>e_id = ext_id,
                       e_name = (case m_name manifest_data of Some v \<Rightarrow> v | None \<Rightarrow> []),
                       e_description = (case m_description manifest_data of Some v \<Rightarrow> v | None \<Rightarrow> []),
                       e_icon = (if is_file fs (path_join icon_parent_path icon_short)
                                 then path_join icon_parent_path icon_short else []),
                       e_profiles = {p_id profile}\<rparr> exts,
                    profile\<lparr>p_extensions := insert ext_id (p_extensions profile)\<rparr>), None))))"
  using assms
  by (simp add: fetch_extension_def Let_def split: sum.splits option.splits prod.splits)




section \<open>Consistency of the extension index\<close>

lemma map_of_Some_key: "map_of d k = Some v \<Longrightarrow> k \<in> set (map fst d)"
  by (auto dest: map_of_SomeD intro: rev_image_eqI)


lemma dict_all_iff: "dict_all P d = (\<forall>k v. map_of d k = Some v \<longrightarrow> P k v)"
proof
  assume a: "dict_all P d"
  show "\<forall>k v. map_of d k = Some v \<longrightarrow> P k v"
  proof (intro allI impI)
    fix k v assume l: "map_of d k = Some v"
    then have "k \<in> set (map fst d)" by (rule map_of_Some_key)
    with a have "case map_of d k of None \<Rightarrow> True | Some v \<Rightarrow> P k v"
      unfolding dict_all_def list_all_iff by blast
    with l show "P k v" by simp
  qed
next
  assume a: "\<forall>k v. map_of d k = Some v \<longrightarrow> P k v"
  show "dict_all P d"
    unfolding dict_all_def list_all_iff
  proof
    fix k assume "k \<in> set (map fst d)"
    show "case map_of d k of None \<Rightarrow> True | Some v \<Rightarrow> P k v"
      using a by (cases "map_of d k") auto
  qed
qed

lemma dict_ex_iff: "dict_ex P d = (\<exists>k v. map_of d k = Some v \<and> P k v)"
proof
  assume "dict_ex P d"
  then obtain k where "k \<in> set (map fst d)"
    and c: "case map_of d k of None \<Rightarrow> False | Some v \<Rightarrow> P k v"
    unfolding dict_ex_def list_ex_iff by blast
  then show "\<exists>k v. map_of d k = Some v \<and> P k v"
    by (cases "map_of d k") auto
next
  assume "\<exists>k v. map_of d k = Some v \<and> P k v"
  then obtain k v where l: "map_of d k = Some v" and p: "P k v" by blast
  from l have "k \<in> set (map fst d)" by (rule map_of_Some_key)
  moreover from l p have "case map_of d k of None \<Rightarrow> False | Some v \<Rightarrow> P k v" by simp
  ultimately show "dict_ex P d"
    unfolding dict_ex_def list_ex_iff by blast
qed

lemma ext_inv_consistency:
  assumes "ext_inv (map_of (profiles self)) (extensions self)"
  shows "extension_consistency self"
  unfolding extension_consistency_def dict_all_iff dict_ex_iff
proof (intro conjI allI impI)
  fix ext_id ext
  assume e: "map_of (extensions self) ext_id = Some ext"
  with assms obtain pid where "pid \<in> e_profiles ext" and "map_of (profiles self) pid \<noteq> None"
    unfolding ext_inv_def by blast
  then obtain p where p: "map_of (profiles self) pid = Some p" by auto
  with assms e \<open>pid \<in> e_profiles ext\<close> have "ext_id \<in> p_extensions p"
    unfolding ext_inv_def by blast
  with p show "\<exists>k v. map_of (profiles self) k = Some v \<and> ext_id \<in> p_extensions v" by blast
next
  fix k p
  assume "map_of (profiles self) k = Some p"
  with assms show "\<forall>ext_id \<in> p_extensions p. map_of (extensions self) ext_id \<noteq> None"
    unfolding ext_inv_def by blast
next
  fix ext_id ext k p
  assume e: "map_of (extensions self) ext_id = Some ext"
    and p: "map_of (profiles self) k = Some p"
  from assms e have id: "e_id ext = ext_id" unfolding ext_inv_def by blast
  from assms p have pk: "p_id p = k" unfolding ext_inv_def by blast
  from assms p have "(ext_id \<in> p_extensions p)
      = (\<exists>ext. map_of (extensions self) ext_id = Some ext \<and> k \<in> e_profiles ext)"
    unfolding ext_inv_def by blast
  with e id pk show "(p_id p \<in> e_profiles ext) = (e_id ext \<in> p_extensions p)" by auto
qed

lemma ext_inv_add:
  assumes inv: "ext_inv (m(k \<mapsto> profile)) exts"
    and here: "case map_of exts ext_id of
                 None \<Rightarrow> e_id ext = ext_id \<and> e_profiles ext = {k}
               | Some ext0 \<Rightarrow> e_id ext = e_id ext0 \<and> e_profiles ext = insert k (e_profiles ext0)"
  shows "ext_inv (m(k \<mapsto> profile\<lparr>p_extensions := insert ext_id (p_extensions profile)\<rparr>))
           (AList.update ext_id ext exts)"
proof -
  let ?p' = "profile\<lparr>p_extensions := insert ext_id (p_extensions profile)\<rparr>"
  let ?m = "m(k \<mapsto> profile)" and ?m' = "m(k \<mapsto> ?p')"
  let ?x' = "AList.update ext_id ext exts"
  from inv have i1: "\<And>k' p. ?m k' = Some p \<Longrightarrow> p_id p = k'"
    and i2: "\<And>i x. map_of exts i = Some x \<Longrightarrow>
               e_id x = i \<and> e_profiles x \<noteq> {} \<and> (\<forall>pid \<in> e_profiles x. ?m pid \<noteq> None)"
    and i3: "\<And>k' p i. ?m k' = Some p \<Longrightarrow>
               (i \<in> p_extensions p) = (\<exists>x. map_of exts i = Some x \<and> k' \<in> e_profiles x)"
    unfolding ext_inv_def by blast+
  have dom: "\<And>pid. (?m' pid \<noteq> None) = (?m pid \<noteq> None)" by simp
  have e: "e_id ext = ext_id \<and> e_profiles ext \<noteq> {} \<and> (\<forall>pid \<in> e_profiles ext. ?m pid \<noteq> None)"
    and ein: "\<And>k'. (k' \<in> e_profiles ext)
                = (k' = k \<or> (\<exists>x. map_of exts ext_id = Some x \<and> k' \<in> e_profiles x))"
  proof -
    show "e_id ext = ext_id \<and> e_profiles ext \<noteq> {} \<and> (\<forall>pid \<in> e_profiles ext. ?m pid \<noteq> None)"
    proof (cases "map_of exts ext_id")
      case None
      with here show ?thesis by simp
    next
      case (Some ext0)
      with here i2 [OF Some] show ?thesis by simp
    qed
    show "\<And>k'. (k' \<in> e_profiles ext)
                = (k' = k \<or> (\<exists>x. map_of exts ext_id = Some x \<and> k' \<in> e_profiles x))"
    proof (cases "map_of exts ext_id")
      case None
      with here show "\<And>k'. (k' \<in> e_profiles ext)
                = (k' = k \<or> (\<exists>x. map_of exts ext_id = Some x \<and> k' \<in> e_profiles x))" by simp
    next
      case (Some ext0)
      with here show "\<And>k'. (k' \<in> e_profiles ext)
                = (k' = k \<or> (\<exists>x. map_of exts ext_id = Some x \<and> k' \<in> e_profiles x))" by simp
    qed
  qed
  have g1: "\<forall>k' p. ?m' k' = Some p \<longrightarrow> p_id p = k'"
  proof (intro allI impI)
    fix k' p assume l: "?m' k' = Some p"
    show "p_id p = k'"
    proof (cases "k' = k")
      case True
      with l i1 [of k profile] show ?thesis by auto
    next
      case False
      with l i1 [of k' p] show ?thesis by simp
    qed
  qed
  have g2: "\<forall>i x. map_of ?x' i = Some x \<longrightarrow>
               e_id x = i \<and> e_profiles x \<noteq> {} \<and> (\<forall>pid \<in> e_profiles x. ?m' pid \<noteq> None)"
  proof (intro allI impI)
    fix i x assume l: "map_of ?x' i = Some x"
    show "e_id x = i \<and> e_profiles x \<noteq> {} \<and> (\<forall>pid \<in> e_profiles x. ?m' pid \<noteq> None)"
    proof (cases "i = ext_id")
      case True
      with l have "x = ext" by (simp add: update_conv')
      with e True dom show ?thesis by simp
    next
      case False
      with l have "map_of exts i = Some x" by (simp add: update_conv')
      from i2 [OF this] dom show ?thesis by simp
    qed
  qed
  have g3: "\<forall>k' p i. ?m' k' = Some p \<longrightarrow>
               (i \<in> p_extensions p) = (\<exists>x. map_of ?x' i = Some x \<and> k' \<in> e_profiles x)"
  proof (intro allI impI)
    fix k' p i assume l: "?m' k' = Some p"
    show "(i \<in> p_extensions p) = (\<exists>x. map_of ?x' i = Some x \<and> k' \<in> e_profiles x)"
    proof (cases "k' = k")
      case True
      with l have p: "p = ?p'" by simp
      have old: "(i \<in> p_extensions profile) = (\<exists>x. map_of exts i = Some x \<and> k \<in> e_profiles x)"
        using i3 [of k profile i] by simp
      show ?thesis
      proof (cases "i = ext_id")
        case True
        with p \<open>k' = k\<close> ein [of k] show ?thesis by (simp add: update_conv')
      next
        case False
        with p \<open>k' = k\<close> old show ?thesis by (simp add: update_conv')
      qed
    next
      case False
      with l have mk: "?m k' = Some p" by simp
      have old: "(i \<in> p_extensions p) = (\<exists>x. map_of exts i = Some x \<and> k' \<in> e_profiles x)"
        using i3 [OF mk] .
      show ?thesis
      proof (cases "i = ext_id")
        case True
        with old False ein [of k'] show ?thesis by (simp add: update_conv')
      next
        case False
        with old show ?thesis by (simp add: update_conv')
      qed
    qed
  qed
  show ?thesis unfolding ext_inv_def using g1 g2 g3 by (intro conjI)
qed

lemma fetch_extension_cases:
  assumes "fetch_extension fs (ext_id, ext_set) (exts, profile) = ((exts', profile'), e)"
  shows "(exts' = exts \<and> profile' = profile)
       \<or> (\<exists>ext. exts' = AList.update ext_id ext exts
               \<and> profile' = profile\<lparr>p_extensions := insert ext_id (p_extensions profile)\<rparr>
               \<and> (case map_of exts ext_id of
                      None \<Rightarrow> e_id ext = ext_id \<and> e_profiles ext = {p_id profile}
                    | Some ext0 \<Rightarrow> e_id ext = e_id ext0
                        \<and> e_profiles ext = insert (p_id profile) (e_profiles ext0)))"
proof (cases "map_of exts ext_id")
  case (Some ext0)
  with assms show ?thesis by (auto simp: fetch_extension_def)
next
  case None
  let ?dir = "path_join (p_profile_dir profile) ''Extensions''"
  let ?path = "case es_path ext_set of Some v \<Rightarrow> v | None \<Rightarrow> []"
  note run = assms [unfolded fetch_extension_new [OF None]]
  show ?thesis
  proof (cases "is_dir fs ?dir \<and> ?path \<noteq> []")
    case False
    with run show ?thesis by (auto split: if_splits)
  next
    case True
    note go = True
    show ?thesis
    proof (cases "resolve_manifest fs ?dir ext_set ?path")
      case (Inl err)
      with run go show ?thesis by simp
    next
      case (Inr r)
      note res = Inr
      show ?thesis
      proof (cases r)
        case None
        with run go res show ?thesis by simp
      next
        case (Some mp)
        obtain md base where mp: "mp = (md, base)" by (cases mp)
        show ?thesis
        proof (cases "icon_short_path (case m_icons md of Some v \<Rightarrow> v | None \<Rightarrow> [])")
          case (Inl err)
          with run go res Some mp show ?thesis by simp
        next
          case (Inr ic)
          let ?ext = "\<lparr>e_id = ext_id,
                       e_name = (case m_name md of Some v \<Rightarrow> v | None \<Rightarrow> []),
                       e_description = (case m_description md of Some v \<Rightarrow> v | None \<Rightarrow> []),
                       e_icon = (if is_file fs (path_join base ic) then path_join base ic else []),
                       e_profiles = {p_id profile}\<rparr>"
          from run go res Some mp Inr
          have "exts' = AList.update ext_id ?ext exts"
            and "profile' = profile\<lparr>p_extensions := insert ext_id (p_extensions profile)\<rparr>"
            by simp_all
          then show ?thesis
            using \<open>map_of exts ext_id = None\<close>
            by (intro disjI2 exI [of _ ?ext]) simp
        qed
      qed
    qed
  qed
qed

lemma ext_inv_fetch_extension:
  assumes inv: "ext_inv (m(k \<mapsto> profile)) exts"
    and step: "fetch_extension fs entry (exts, profile) = ((exts', profile'), e)"
  shows "ext_inv (m(k \<mapsto> profile')) exts'"
proof -
  obtain ext_id ext_set where entry: "entry = (ext_id, ext_set)" by (cases entry)
  from inv have pk: "p_id profile = k" unfolding ext_inv_def by simp
  from fetch_extension_cases [OF step [unfolded entry]] pk
  consider "exts' = exts \<and> profile' = profile"
    | ext where "exts' = AList.update ext_id ext exts"
        "profile' = profile\<lparr>p_extensions := insert ext_id (p_extensions profile)\<rparr>"
        "case map_of exts ext_id of
                 None \<Rightarrow> e_id ext = ext_id \<and> e_profiles ext = {k}
               | Some ext0 \<Rightarrow> e_id ext = e_id ext0 \<and> e_profiles ext = insert k (e_profiles ext0)"
    by auto
  then show ?thesis
  proof cases
    case 1
    with inv show ?thesis by simp
  next
    case 2
    with ext_inv_add [OF inv 2(3)] show ?thesis by simp
  qed
qed

lemma ext_inv_one_profile:
  assumes inv: "ext_inv (m(k \<mapsto> profile)) exts"
    and run: "fetch_extensions_from_one_profile fs ext_settings (exts, profile) = ((exts', profile'), e)"
  shows "ext_inv (m(k \<mapsto> profile')) exts'"
proof -
  have "ext_inv (m(k \<mapsto> snd (exts', profile'))) (fst (exts', profile'))"
  proof (rule for_each_invariant [where P = "\<lambda>st. ext_inv (m(k \<mapsto> snd st)) (fst st)"])
    show "for_each (fetch_extension fs) ext_settings (exts, profile) = ((exts', profile'), e)"
      using run by (simp add: fetch_extensions_from_one_profile_def)
    show "ext_inv (m(k \<mapsto> snd (exts, profile))) (fst (exts, profile))"
      using inv by simp
    show "\<And>x s s' e. ext_inv (m(k \<mapsto> snd s)) (fst s) \<Longrightarrow> fetch_extension fs x s = (s', e)
            \<Longrightarrow> ext_inv (m(k \<mapsto> snd s')) (fst s')"
    proof -
      fix x and s s' :: ext_state and e
      assume i: "ext_inv (m(k \<mapsto> snd s)) (fst s)" and f: "fetch_extension fs x s = (s', e)"
      from f have "fetch_extension fs x (fst s, snd s) = ((fst s', snd s'), e)" by simp
      with i show "ext_inv (m(k \<mapsto> snd s')) (fst s')" by (rule ext_inv_fetch_extension)
    qed
  qed
  then show ?thesis by simp
qed

lemma ext_inv_profile:
  assumes inv: "ext_inv (map_of (profiles s)) (extensions s)"
    and run: "fetch_extensions_profile fs k s = (s', e)"
  shows "ext_inv (map_of (profiles s')) (extensions s')"
proof (cases "s' = s")
  case True
  with inv show ?thesis by simp
next
  case False
  with run obtain profile ext_settings exts' profile' where
    p: "map_of (profiles s) k = Some profile"
    and one: "fetch_extensions_from_one_profile fs ext_settings (extensions s, profile)
                = ((exts', profile'), e)"
    and s': "s' = s\<lparr>extensions := exts', profiles := AList.update k profile' (profiles s)\<rparr>"
    by (auto simp: fetch_extensions_profile_def Let_def
             split: option.splits if_splits sum.splits prod.splits)
  from p have "(map_of (profiles s))(k \<mapsto> profile) = map_of (profiles s)" by (rule map_upd_triv)
  with inv have "ext_inv ((map_of (profiles s))(k \<mapsto> profile)) (extensions s)" by simp
  from ext_inv_one_profile [OF this one] show ?thesis
    by (simp add: s' update_conv')
qed

lemma ext_inv_initial:
  assumes "profiles_by_id self" and "no_extensions_yet self"
  shows "ext_inv (map_of (profiles self)) []"
  using assms unfolding profiles_by_id_def no_extensions_yet_def dict_all_iff ext_inv_def
  by simp

text \<open>
  C3, amended.  When every profile stands under its own identifier and has an empty
  extension set, as profile discovery leaves the profiles, the state in which extension
  discovery ends (by a return or by an exception) is consistent: an identifier is in the
  global index exactly when some profile's extension set holds it, and a profile's
  identifier is in an Extension's profile set exactly when the Extension's identifier is
  in the profile's extension set.
\<close>

theorem extensions_consistent_after_discovery:
  assumes "profiles_by_id self" and "no_extensions_yet self"
  shows "extension_consistency (fst (fetch_extensions_from_all_profiles fs self))"
proof -
  obtain s' e where run: "fetch_extensions_from_all_profiles fs self = (s', e)"
    by (cases "fetch_extensions_from_all_profiles fs self")
  have "ext_inv (map_of (profiles s')) (extensions s')"
  proof (rule for_each_invariant [where P = "\<lambda>s. ext_inv (map_of (profiles s)) (extensions s)"])
    show "for_each (fetch_extensions_profile fs) (map fst (profiles self))
            (self\<lparr>extensions := []\<rparr>) = (s', e)"
      using run by (simp add: fetch_extensions_from_all_profiles_def)
    show "ext_inv (map_of (profiles (self\<lparr>extensions := []\<rparr>))) (extensions (self\<lparr>extensions := []\<rparr>))"
      using ext_inv_initial [OF assms] by simp
    show "\<And>x s s' e. ext_inv (map_of (profiles s)) (extensions s) \<Longrightarrow>
            fetch_extensions_profile fs x s = (s', e) \<Longrightarrow>
            ext_inv (map_of (profiles s')) (extensions s')"
      by (rule ext_inv_profile)
  qed
  then have "extension_consistency s'" by (rule ext_inv_consistency)
  with run show ?thesis by simp
qed

lemmas cons_defs = extension_consistency_def dict_all_def dict_ex_def profiles_by_id_def
  no_extensions_yet_def

text \<open>
  C3, as stated, fails: discovery clears the global index and never a profile's extension
  set.  A profile that holds an identifier from an earlier discovery keeps it when its
  \<^verbatim>\<open>Secure Preferences\<close> file is gone, and the identifier is then in no index.
\<close>

theorem extensions_stale_counterexample:
  "extension_consistency ex_stale_extensions
   \<and> snd (fetch_extensions_from_all_profiles Map.empty ex_stale_extensions) = None
   \<and> extensions (fst (fetch_extensions_from_all_profiles Map.empty ex_stale_extensions)) = []
   \<and> \<not> extension_consistency (fst (fetch_extensions_from_all_profiles Map.empty ex_stale_extensions))"
  by (simp add: ex_stale_extensions_def ex_defs fs_defs ext_defs cons_defs)

theorem extensions_consistent_after_discovery_witness:
  "profiles_by_id ex_two_profiles \<and> no_extensions_yet ex_two_profiles
   \<and> extension_consistency (fst (fetch_extensions_from_all_profiles ex_fs_shared ex_two_profiles))
   \<and> map (\<lambda>(k, e). (k, e_profiles e))
        (extensions (fst (fetch_extensions_from_all_profiles ex_fs_shared ex_two_profiles)))
       = [(''abc'', {''Default'', ''Work''})]
   \<and> map (\<lambda>(k, p). (k, p_extensions p))
        (profiles (fst (fetch_extensions_from_all_profiles ex_fs_shared ex_two_profiles)))
       = [(''Default'', {''abc''}), (''Work'', {''abc''})]"
proof -
  have a: "profiles_by_id ex_two_profiles" "no_extensions_yet ex_two_profiles"
    by (simp_all add: ex_defs cons_defs)
  note t = extensions_consistent_after_discovery [OF a, of ex_fs_shared]
  have x: "map (\<lambda>(k, e). (k, e_profiles e))
        (extensions (fst (fetch_extensions_from_all_profiles ex_fs_shared ex_two_profiles)))
       = [(''abc'', {''Default'', ''Work''})]"
    by (simp add: ex_defs fs_defs ext_defs int_defs ext_ex_defs ex_fs_shared_def insert_commute)
  have p: "map (\<lambda>(k, p). (k, p_extensions p))
        (profiles (fst (fetch_extensions_from_all_profiles ex_fs_shared ex_two_profiles)))
       = [(''Default'', {''abc''}), (''Work'', {''abc''})]"
    by (simp add: ex_defs fs_defs ext_defs int_defs ext_ex_defs ex_fs_shared_def)
  from a t x p show ?thesis by simp
qed

section \<open>Integrity of the bookmark index\<close>

lemma bmk_inv_D:
  assumes "bmk_inv m bmks"
  shows "\<And>k p. m k = Some p \<Longrightarrow> p_id p = k"
    and "\<And>k p url path. m k = Some p \<Longrightarrow>
          (map_of (p_bookmarks p) url = Some path)
            = (\<exists>b. map_of bmks url = Some b \<and> map_of (b_profiles b) k = Some path)"
    and "\<And>url b. map_of bmks url = Some b \<Longrightarrow> b_profiles b \<noteq> []"
    and "\<And>url b pid path. map_of bmks url = Some b \<Longrightarrow> map_of (b_profiles b) pid = Some path
          \<Longrightarrow> m pid \<noteq> None"
  using assms unfolding bmk_inv_def by blast+

lemma bmk_inv_I:
  assumes "\<And>k p. m k = Some p \<Longrightarrow> p_id p = k"
    and "\<And>k p url path. m k = Some p \<Longrightarrow>
          (map_of (p_bookmarks p) url = Some path)
            = (\<exists>b. map_of bmks url = Some b \<and> map_of (b_profiles b) k = Some path)"
    and "\<And>url b. map_of bmks url = Some b \<Longrightarrow> b_profiles b \<noteq> []"
    and "\<And>url b pid path. map_of bmks url = Some b \<Longrightarrow> map_of (b_profiles b) pid = Some path
          \<Longrightarrow> m pid \<noteq> None"
  shows "bmk_inv m bmks"
  unfolding bmk_inv_def using assms by blast

lemma bmk_inv_record:
  assumes inv: "bmk_inv (m(k \<mapsto> profile)) bmks"
    and here: "case map_of bmks url of
                 None \<Rightarrow> b_profiles b' = [(k, path)]
               | Some b \<Rightarrow> b_profiles b' = AList.update k path (b_profiles b)"
  shows "bmk_inv (m(k \<mapsto> profile\<lparr>p_bookmarks := AList.update url path (p_bookmarks profile)\<rparr>))
           (AList.update url b' bmks)"
proof (rule bmk_inv_I)
  let ?p' = "profile\<lparr>p_bookmarks := AList.update url path (p_bookmarks profile)\<rparr>"
  let ?m = "m(k \<mapsto> profile)" and ?m' = "m(k \<mapsto> ?p')"
  let ?x' = "AList.update url b' bmks"
  note i = bmk_inv_D [OF inv]
  have ne: "b_profiles b' \<noteq> []"
    using here by (cases "map_of bmks url") auto
  have hb: "\<And>k' pa. (map_of (b_profiles b') k' = Some pa)
      = (if k' = k then pa = path
         else (\<exists>b. map_of bmks url = Some b \<and> map_of (b_profiles b) k' = Some pa))"
    using here by (cases "map_of bmks url") (auto simp: update_conv')
  show "\<And>k' p. ?m' k' = Some p \<Longrightarrow> p_id p = k'"
  proof -
    fix k' p assume l: "?m' k' = Some p"
    show "p_id p = k'"
    proof (cases "k' = k")
      case True
      with l i(1) [of k profile] show ?thesis by auto
    next
      case False
      with l i(1) [of k' p] show ?thesis by simp
    qed
  qed
  show "\<And>k' p u pa. ?m' k' = Some p \<Longrightarrow>
          (map_of (p_bookmarks p) u = Some pa)
            = (\<exists>b. map_of ?x' u = Some b \<and> map_of (b_profiles b) k' = Some pa)"
  proof -
    fix k' p u pa assume l: "?m' k' = Some p"
    show "(map_of (p_bookmarks p) u = Some pa)
            = (\<exists>b. map_of ?x' u = Some b \<and> map_of (b_profiles b) k' = Some pa)"
    proof (cases "k' = k")
      case True
      with l have p: "p = ?p'" by simp
      show ?thesis
      proof (cases "u = url")
        case True
        with p \<open>k' = k\<close> hb [of k pa] show ?thesis by (auto simp: update_conv')
      next
        case False
        with p \<open>k' = k\<close> i(2) [of k profile u pa] show ?thesis by (simp add: update_conv')
      qed
    next
      case False
      with l have mk: "?m k' = Some p" by simp
      show ?thesis
      proof (cases "u = url")
        case True
        with False i(2) [OF mk, of url pa] hb [of k' pa] show ?thesis by (simp add: update_conv')
      next
        case False
        with i(2) [OF mk, of u pa] show ?thesis by (simp add: update_conv')
      qed
    qed
  qed
  show "\<And>u b. map_of ?x' u = Some b \<Longrightarrow> b_profiles b \<noteq> []"
  proof -
    fix u b assume l: "map_of ?x' u = Some b"
    show "b_profiles b \<noteq> []"
    proof (cases "u = url")
      case True
      with l ne show ?thesis by (simp add: update_conv')
    next
      case False
      with l i(3) [of u b] show ?thesis by (simp add: update_conv')
    qed
  qed
  show "\<And>u b pid pa. map_of ?x' u = Some b \<Longrightarrow> map_of (b_profiles b) pid = Some pa
          \<Longrightarrow> ?m' pid \<noteq> None"
  proof -
    fix u b pid pa assume l: "map_of ?x' u = Some b" and q: "map_of (b_profiles b) pid = Some pa"
    show "?m' pid \<noteq> None"
    proof (cases "pid = k")
      case True
      then show ?thesis by simp
    next
      case False
      note pk = False
      have "?m pid \<noteq> None"
      proof (cases "u = url")
        case True
        with l have "b = b'" by (simp add: update_conv')
        with q hb [of pid pa] pk obtain b0 where "map_of bmks url = Some b0"
          and "map_of (b_profiles b0) pid = Some pa" by auto
        then show ?thesis by (rule i(4))
      next
        case False
        with l have "map_of bmks u = Some b" by (simp add: update_conv')
        from i(4) [OF this q] show ?thesis .
      qed
      with pk show ?thesis by simp
    qed
  qed
qed

lemma delete_Nil_lookup:
  assumes "AList.delete k al = []" and "k' \<noteq> k"
  shows "map_of al k' = None"
proof -
  from assms(2) have "map_of (AList.delete k al) k' = map_of al k'" by simp
  with assms(1) show ?thesis by simp
qed

lemma delete_absent: "map_of al k = None \<Longrightarrow> AList.delete k al = al"
  by (rule delete_id) (simp add: map_of_eq_None_iff)

lemma remove_bookmark_profile:
  assumes "remove_bookmark url (bmks, profile) = (bmks', profile')"
  shows "p_id profile' = p_id profile"
    and "map_of (p_bookmarks profile') u
           = (if u = url then None else map_of (p_bookmarks profile) u)"
  using assms by (auto simp: remove_bookmark_def delete_conv' split: if_splits)

lemma remove_bookmark_index:
  assumes run: "remove_bookmark url (bmks, profile) = (bmks', profile')"
    and ne: "\<forall>b. map_of bmks url = Some b \<longrightarrow> b_profiles b \<noteq> []"
  shows "map_of bmks' u =
           (if u = url then
              (case map_of bmks url of
                 None \<Rightarrow> None
               | Some b \<Rightarrow>
                   if AList.delete (p_id profile) (b_profiles b) = [] then None
                   else Some (b\<lparr>b_profiles := AList.delete (p_id profile) (b_profiles b)\<rparr>))
            else map_of bmks u)"
proof (cases "map_of bmks url")
  case None
  with run show ?thesis by (auto simp: remove_bookmark_def)
next
  case (Some b)
  show ?thesis
  proof (cases "map_of (b_profiles b) (p_id profile)")
    case None
    then have "AList.delete (p_id profile) (b_profiles b) = b_profiles b" by (rule delete_absent)
    with run Some None ne show ?thesis by (auto simp: remove_bookmark_def)
  next
    case (Some path)
    with run \<open>map_of bmks url = Some b\<close> show ?thesis
      by (auto simp: remove_bookmark_def Let_def update_conv' delete_conv' split: if_splits)
  qed
qed

lemma bmk_inv_remove:
  assumes inv: "bmk_inv (m(k \<mapsto> profile)) bmks"
    and run: "remove_bookmark url (bmks, profile) = (bmks', profile')"
  shows "bmk_inv (m(k \<mapsto> profile')) bmks'"
proof (rule bmk_inv_I)
  let ?m = "m(k \<mapsto> profile)" and ?m' = "m(k \<mapsto> profile')"
  note i = bmk_inv_D [OF inv]
  from i(1) [of k profile] have pk: "p_id profile = k" by simp
  note pr = remove_bookmark_profile [OF run]
  have ix: "\<And>u. map_of bmks' u =
           (if u = url then
              (case map_of bmks url of
                 None \<Rightarrow> None
               | Some b \<Rightarrow>
                   if AList.delete k (b_profiles b) = [] then None
                   else Some (b\<lparr>b_profiles := AList.delete k (b_profiles b)\<rparr>))
            else map_of bmks u)"
  proof -
    fix u
    have "\<forall>b. map_of bmks url = Some b \<longrightarrow> b_profiles b \<noteq> []"
      using i(3) by blast
    from remove_bookmark_index [OF run this, of u] show "map_of bmks' u =
           (if u = url then
              (case map_of bmks url of
                 None \<Rightarrow> None
               | Some b \<Rightarrow>
                   if AList.delete k (b_profiles b) = [] then None
                   else Some (b\<lparr>b_profiles := AList.delete k (b_profiles b)\<rparr>))
            else map_of bmks u)"
      unfolding pk .
  qed
  show "\<And>k' p. ?m' k' = Some p \<Longrightarrow> p_id p = k'"
  proof -
    fix k' p assume l: "?m' k' = Some p"
    show "p_id p = k'"
    proof (cases "k' = k")
      case True
      with l pr(1) pk show ?thesis by auto
    next
      case False
      with l i(1) [of k' p] show ?thesis by simp
    qed
  qed
  show "\<And>k' p u pa. ?m' k' = Some p \<Longrightarrow>
          (map_of (p_bookmarks p) u = Some pa)
            = (\<exists>b. map_of bmks' u = Some b \<and> map_of (b_profiles b) k' = Some pa)"
  proof -
    fix k' p u pa assume l: "?m' k' = Some p"
    show "(map_of (p_bookmarks p) u = Some pa)
            = (\<exists>b. map_of bmks' u = Some b \<and> map_of (b_profiles b) k' = Some pa)"
    proof (cases "u = url")
      case False
      show ?thesis
      proof (cases "k' = k")
        case True
        with l have "p = profile'" by simp
        with False True pr(2) [of u] i(2) [of k profile u pa] ix [of u] show ?thesis by simp
      next
        case False
        with l have "?m k' = Some p" by simp
        from i(2) [OF this, of u pa] \<open>u \<noteq> url\<close> ix [of u] show ?thesis by simp
      qed
    next
      case True
      note uu = True
      show ?thesis
      proof (cases "k' = k")
        case True
        with l have "p = profile'" by simp
        with uu True pr(2) [of url] ix [of url] show ?thesis
          by (auto simp: delete_conv' split: option.splits if_splits)
      next
        case False
        with l have mk: "?m k' = Some p" by simp
        note old = i(2) [OF mk, of url pa]
        show ?thesis
        proof (cases "map_of bmks url")
          case None
          with old uu ix [of url] show ?thesis by simp
        next
          case (Some b)
          show ?thesis
          proof (cases "AList.delete k (b_profiles b) = []")
            case True
            from delete_Nil_lookup [OF True False] have "map_of (b_profiles b) k' = None" .
            with old uu Some True ix [of url] show ?thesis by simp
          next
            case nonempty: False
            with old uu Some ix [of url] False show ?thesis by (simp add: delete_conv')
          qed
        qed
      qed
    qed
  qed
  show "\<And>u b. map_of bmks' u = Some b \<Longrightarrow> b_profiles b \<noteq> []"
  proof -
    fix u b assume l: "map_of bmks' u = Some b"
    show "b_profiles b \<noteq> []"
    proof (cases "u = url")
      case True
      with l ix [of url] show ?thesis by (auto split: option.splits if_splits)
    next
      case False
      with l ix [of u] i(3) [of u b] show ?thesis by simp
    qed
  qed
  show "\<And>u b pid pa. map_of bmks' u = Some b \<Longrightarrow> map_of (b_profiles b) pid = Some pa
          \<Longrightarrow> ?m' pid \<noteq> None"
  proof -
    fix u b pid pa assume l: "map_of bmks' u = Some b" and q: "map_of (b_profiles b) pid = Some pa"
    have "?m pid \<noteq> None"
    proof (cases "u = url")
      case True
      with l ix [of url] obtain b0 where b0: "map_of bmks url = Some b0"
        and b: "b = b0\<lparr>b_profiles := AList.delete k (b_profiles b0)\<rparr>"
        by (auto split: option.splits if_splits)
      from q b have "map_of (b_profiles b0) pid = Some pa"
        by (auto simp: delete_conv' split: if_splits)
      with b0 show ?thesis by (rule i(4))
    next
      case False
      with l ix [of u] have "map_of bmks u = Some b" by simp
      from i(4) [OF this q] show ?thesis .
    qed
    then show "?m' pid \<noteq> None" by (cases "pid = k") simp_all
  qed
qed

lemma delete_walk_invariant:
  assumes step: "\<And>url st. P st \<Longrightarrow> P (remove_bookmark url st)"
  shows "P st \<longrightarrow> P (snd (fst (delete_bookmarks_in_one_folder urls info st)))"
    and "P st \<longrightarrow> P (snd (fst (delete_children urls cs n st)))"
proof (induction urls info st and urls cs n st
       rule: delete_bookmarks_in_one_folder_delete_children.induct)
  case (1 urls info st)
  show ?case
  proof
    assume p: "P st"
    show "P (snd (fst (delete_bookmarks_in_one_folder urls info st)))"
    proof (cases "n_type info")
      case None
      with p show ?thesis by simp
    next
      case (Some t)
      show ?thesis
      proof (cases "t = ''folder''")
        case False
        with p Some show ?thesis by simp
      next
        case True
        show ?thesis
        proof (cases "n_children info")
          case None
          with p Some True show ?thesis by simp
        next
          case (Some cs)
          obtain cs' st' e' where
            d: "delete_children urls cs (length cs) st = ((cs', st'), e')"
            by (cases "delete_children urls cs (length cs) st") auto
          from "1.IH" [of t cs] \<open>n_type info = Some t\<close> True Some p d
          have "P st'" by simp
          with \<open>n_type info = Some t\<close> True Some d show ?thesis by simp
        qed
      qed
    qed
  qed
next
  case (2 urls cs st)
  show ?case by simp
next
  case (3 urls cs i st)
  show ?case
  proof
    assume p: "P st"
    show "P (snd (fst (delete_children urls cs (Suc i) st)))"
    proof (cases "length cs \<le> i")
      case True
      with p show ?thesis by simp
    next
      case False
      note inb = False
      show ?thesis
      proof (cases "n_type (cs ! i)")
        case None
        with p inb show ?thesis by simp
      next
        case (Some t)
        show ?thesis
        proof (cases "t = ''url''")
          case True
          show ?thesis
          proof (cases "n_url (cs ! i)")
            case None
            with p inb Some True show ?thesis by simp
          next
            case (Some u)
            show ?thesis
            proof (cases "u \<in> set urls")
              case True
              from step [OF p] have "P (remove_bookmark u st)" .
              with "3.IH"(1) [of t u] inb \<open>n_type (cs ! i) = Some t\<close> \<open>t = ''url''\<close> Some True
              show ?thesis by simp
            next
              case False
              with "3.IH"(2) [of t u] inb \<open>n_type (cs ! i) = Some t\<close> \<open>t = ''url''\<close> Some p
              show ?thesis by simp
            qed
          qed
        next
          case False
          obtain c1 st1 e1 where
            d: "delete_bookmarks_in_one_folder urls (cs ! i) st = ((c1, st1), e1)"
            by (cases "delete_bookmarks_in_one_folder urls (cs ! i) st") auto
          from "3.IH"(3) [of t] inb Some False p d have p1: "P st1" by simp
          show ?thesis
          proof (cases e1)
            case None
            with "3.IH"(4) [of t "(c1, st1)" e1 c1 st1] inb Some False d p1
            show ?thesis by simp
          next
            case (Some err)
            with inb \<open>n_type (cs ! i) = Some t\<close> False d p1 show ?thesis by simp
          qed
        qed
      qed
    qed
  qed
qed

lemma delete_roots_invariant:
  assumes step: "\<And>url st. P st \<Longrightarrow> P (remove_bookmark url st)"
  shows "P st \<Longrightarrow> P (snd (fst (delete_roots urls roots st)))"
proof (induction roots arbitrary: st)
  case Nil
  then show ?case by simp
next
  case (Cons r roots)
  obtain nm info where r: "r = (nm, info)" by (cases r)
  obtain c1 st1 e1 where d: "delete_bookmarks_in_one_folder urls info st = ((c1, st1), e1)"
    by (cases "delete_bookmarks_in_one_folder urls info st") auto
  from delete_walk_invariant(1) [of P st urls info, OF step] Cons.prems d
  have p1: "P st1" by simp
  show ?case
  proof (cases e1)
    case None
    obtain roots' st' e' where d': "delete_roots urls roots st1 = ((roots', st'), e')"
      by (cases "delete_roots urls roots st1") auto
    from Cons.IH [OF p1] d' have "P st'" by simp
    with r d None d' show ?thesis
      by (simp del: delete_bookmarks_in_one_folder.simps)
  next
    case (Some err)
    with r d p1 show ?thesis by (simp del: delete_bookmarks_in_one_folder.simps)
  qed
qed

lemma fetch_walk_invariant:
  "bmk_inv (m(k \<mapsto> snd st)) (fst st) \<longrightarrow>
     (\<forall>st'. fetch_bookmarks_from_one_type info path_ls st = (st', None) \<longrightarrow>
        bmk_inv (m(k \<mapsto> snd st')) (fst st'))"
  "bmk_inv (m(k \<mapsto> snd st)) (fst st) \<longrightarrow>
     (\<forall>st'. fetch_bookmarks_children children new_path_ls st = (st', None) \<longrightarrow>
        bmk_inv (m(k \<mapsto> snd st')) (fst st'))"
proof (induction info path_ls st and children new_path_ls st
       rule: fetch_bookmarks_from_one_type_fetch_bookmarks_children.induct)
  case (1 info path_ls bmks profile)
  show ?case
  proof (intro impI allI)
    fix st'
    assume inv: "bmk_inv (m(k \<mapsto> snd (bmks, profile))) (fst (bmks, profile))"
      and run: "fetch_bookmarks_from_one_type info path_ls (bmks, profile) = (st', None)"
    from inv have inv': "bmk_inv (m(k \<mapsto> profile)) bmks" by simp
    from bmk_inv_D(1) [OF inv', of k profile] have pk: "p_id profile = k" by simp
    from run obtain t where t: "n_type info = Some t" by (auto split: option.splits)
    show "bmk_inv (m(k \<mapsto> snd st')) (fst st')"
    proof (cases "t = ''url''")
      case True
      with run t obtain url where u: "n_url info = Some url" by (auto split: option.splits)
      let ?path = "py_join ''/'' path_ls"
      let ?p' = "profile\<lparr>p_bookmarks := AList.update url ?path (p_bookmarks profile)\<rparr>"
      show ?thesis
      proof (cases "map_of bmks url")
        case (Some b)
        let ?b' = "b\<lparr>b_profiles := AList.update k ?path (b_profiles b)\<rparr>"
        from run t True u Some pk have st': "st' = (AList.update url ?b' bmks, ?p')"
          by (simp add: Let_def)
        have "case map_of bmks url of
                 None \<Rightarrow> b_profiles ?b' = [(k, ?path)]
               | Some b \<Rightarrow> b_profiles ?b' = AList.update k ?path (b_profiles b)"
          using Some by simp
        from bmk_inv_record [OF inv' this] st' show ?thesis by simp
      next
        case None
        with run t True u obtain nm where nm: "n_name info = Some nm"
          by (auto simp: Let_def split: option.splits)
        let ?b' = "\<lparr>b_name = nm, b_url = url, b_profiles = [(k, ?path)]\<rparr>"
        from run t True u None nm pk have st': "st' = (AList.update url ?b' bmks, ?p')"
          by (simp add: Let_def)
        have "case map_of bmks url of
                 None \<Rightarrow> b_profiles ?b' = [(k, ?path)]
               | Some b \<Rightarrow> b_profiles ?b' = AList.update k ?path (b_profiles b)"
          using None by simp
        from bmk_inv_record [OF inv' this] st' show ?thesis by simp
      qed
    next
      case False
      note nu = False
      show ?thesis
      proof (cases "t = ''folder''")
        case True
        with run t nu obtain nm cs where nm: "n_name info = Some nm" and cs: "n_children info = Some cs"
          by (auto split: option.splits)
        with run t nu True
        have r: "fetch_bookmarks_children cs (path_ls @ [nm]) (bmks, profile) = (st', None)"
          by simp
        from "1.IH" [OF t nu True nm cs] inv r show ?thesis by blast
      next
        case False
        with run t nu have "st' = (bmks, profile)" by simp
        with inv show ?thesis by simp
      qed
    qed
  qed
next
  case (2 new_path_ls st)
  show ?case by simp
next
  case (3 child children new_path_ls st)
  show ?case
  proof (intro impI allI)
    fix st'
    assume inv: "bmk_inv (m(k \<mapsto> snd st)) (fst st)"
      and run: "fetch_bookmarks_children (child # children) new_path_ls st = (st', None)"
    obtain st1 e1 where f: "fetch_bookmarks_from_one_type child new_path_ls st = (st1, e1)"
      by (cases "fetch_bookmarks_from_one_type child new_path_ls st")
    with run have e1: "e1 = None" by (cases e1) auto
    with f have f': "fetch_bookmarks_from_one_type child new_path_ls st = (st1, None)" by simp
    from "3.IH"(1) inv f' have i1: "bmk_inv (m(k \<mapsto> snd st1)) (fst st1)" by blast
    from run f' have r: "fetch_bookmarks_children children new_path_ls st1 = (st', None)"
      by (simp del: fetch_bookmarks_from_one_type.simps)
    from "3.IH"(2) [OF f' [symmetric] refl] i1 r
    show "bmk_inv (m(k \<mapsto> snd st')) (fst st')" by blast
  qed
qed

lemma for_each_invariant_normal:
  assumes step: "\<And>x s s'. P s \<Longrightarrow> f x s = (s', None) \<Longrightarrow> P s'"
    and "P s" and "for_each f xs s = (s', None)"
  shows "P s'"
  using assms(2,3)
proof (induction xs arbitrary: s)
  case Nil
  then show ?case by simp
next
  case (Cons x xs)
  obtain s1 e1 where b: "f x s = (s1, e1)" by (cases "f x s")
  with Cons.prems(2) have e1: "e1 = None" by (cases e1) auto
  with b Cons.prems(1) have p1: "P s1" using step by blast
  from b e1 Cons.prems(2) have "for_each f xs s1 = (s', None)" by simp
  with Cons.IH p1 show ?case by blast
qed

lemma bmk_inv_cong:
  assumes inv: "bmk_inv (m(k \<mapsto> p)) bmks"
    and same: "p_id q = p_id p" "p_bookmarks q = p_bookmarks p"
  shows "bmk_inv (m(k \<mapsto> q)) bmks"
proof (rule bmk_inv_I)
  note i = bmk_inv_D [OF inv]
  show "\<And>k' p'. (m(k \<mapsto> q)) k' = Some p' \<Longrightarrow> p_id p' = k'"
  proof -
    fix k' p' assume l: "(m(k \<mapsto> q)) k' = Some p'"
    show "p_id p' = k'"
    proof (cases "k' = k")
      case True
      with l same i(1) [of k p] show ?thesis by auto
    next
      case False
      with l i(1) [of k' p'] show ?thesis by simp
    qed
  qed
  show "\<And>k' p' url path. (m(k \<mapsto> q)) k' = Some p' \<Longrightarrow>
          (map_of (p_bookmarks p') url = Some path)
            = (\<exists>b. map_of bmks url = Some b \<and> map_of (b_profiles b) k' = Some path)"
  proof -
    fix k' p' url path assume l: "(m(k \<mapsto> q)) k' = Some p'"
    show "(map_of (p_bookmarks p') url = Some path)
            = (\<exists>b. map_of bmks url = Some b \<and> map_of (b_profiles b) k' = Some path)"
    proof (cases "k' = k")
      case True
      with l same i(2) [of k p url path] show ?thesis by auto
    next
      case False
      with l i(2) [of k' p' url path] show ?thesis by simp
    qed
  qed
  show "\<And>url b. map_of bmks url = Some b \<Longrightarrow> b_profiles b \<noteq> []"
    by (rule i(3))
  show "\<And>url b pid path. map_of bmks url = Some b \<Longrightarrow> map_of (b_profiles b) pid = Some path
          \<Longrightarrow> (m(k \<mapsto> q)) pid \<noteq> None"
  proof -
    fix url b pid path
    assume "map_of bmks url = Some b" and "map_of (b_profiles b) pid = Some path"
    from i(4) [OF this] show "(m(k \<mapsto> q)) pid \<noteq> None" by (cases "pid = k") simp_all
  qed
qed

lemma bmk_inv_roots:
  assumes inv: "bmk_inv (m(k \<mapsto> snd st)) (fst st)"
    and run: "for_each (\<lambda>(bmk_type, bookmark_info).
                 fetch_bookmarks_from_one_type bookmark_info [[]])
               (roots :: (string \<times> node) list) st = (st', None)"
  shows "bmk_inv (m(k \<mapsto> snd st')) (fst st')"
proof (rule for_each_invariant_normal
         [where P = "\<lambda>st. bmk_inv (m(k \<mapsto> snd st)) (fst st)", OF _ inv run])
  fix x :: "string \<times> node" and s s' :: bmk_state
  assume i: "bmk_inv (m(k \<mapsto> snd s)) (fst s)"
    and f: "(case x of (bmk_type, bookmark_info) \<Rightarrow>
               fetch_bookmarks_from_one_type bookmark_info [[]]) s = (s', None)"
  obtain nm info where x: "x = (nm, info)" by (cases x)
  from f x have "fetch_bookmarks_from_one_type info [[]] s = (s', None)" by simp
  with fetch_walk_invariant(1) [of m k s info "[[]]"] i
  show "bmk_inv (m(k \<mapsto> snd s')) (fst s')" by blast
qed

lemma bmk_inv_fetch_profile:
  assumes inv: "bmk_inv (map_of (profiles s)) (bookmarks s)"
    and run: "fetch_bookmarks_profile fs k s = (s', None)"
  shows "bmk_inv (map_of (profiles s')) (bookmarks s')"
proof -
  from run obtain profile where p: "map_of (profiles s) k = Some profile"
    by (auto simp: fetch_bookmarks_profile_def split: option.splits)
  let ?file = "path_join (p_profile_dir profile) ''Bookmarks''"
  let ?p1 = "profile\<lparr>p_bookmark_file := ?file\<rparr>"
  let ?s1 = "s\<lparr>profiles := AList.update k ?p1 (profiles s)\<rparr>"
  let ?m = "map_of (profiles s)"
  from p have "?m(k \<mapsto> profile) = ?m" by (rule map_upd_triv)
  with inv have "bmk_inv (?m(k \<mapsto> profile)) (bookmarks s)" by simp
  then have i1: "bmk_inv (?m(k \<mapsto> ?p1)) (bookmarks s)"
    by (rule bmk_inv_cong) simp_all
  then have is1: "bmk_inv (map_of (profiles ?s1)) (bookmarks ?s1)"
    by (simp add: update_conv')
  show ?thesis
  proof (cases "is_file fs ?file")
    case False
    with run p have "s' = s" by (simp add: fetch_bookmarks_profile_def Let_def)
    with inv show ?thesis by simp
  next
    case True
    note isf = True
    show ?thesis
    proof (cases "read_json fs ?file")
      case (Inl err)
      with run p isf have "s' = ?s1"
        by (simp add: fetch_bookmarks_profile_def Let_def split: if_splits)
      with is1 show ?thesis by simp
    next
      case (Inr data)
      show ?thesis
      proof (cases "j_roots data")
        case None
        with run p isf Inr have "s' = ?s1"
          by (simp add: fetch_bookmarks_profile_def Let_def)
        with is1 show ?thesis by simp
      next
        case (Some roots)
        obtain bmks' profile' e where
          f: "for_each (\<lambda>(bmk_type, bookmark_info).
                 fetch_bookmarks_from_one_type bookmark_info [[]]) roots (bookmarks s, ?p1)
              = ((bmks', profile'), e)"
          by (cases "for_each (\<lambda>(bmk_type, bookmark_info).
                 fetch_bookmarks_from_one_type bookmark_info [[]]) roots (bookmarks s, ?p1)") auto
        with run p isf Inr Some have e: "e = None"
          and s': "s' = s\<lparr>bookmarks := bmks', profiles := AList.update k profile' (profiles s)\<rparr>"
          by (simp_all add: fetch_bookmarks_profile_def Let_def)
        from i1 have "bmk_inv (?m(k \<mapsto> snd (bookmarks s, ?p1))) (fst (bookmarks s, ?p1))"
          by simp
        from bmk_inv_roots [OF this f [unfolded e]]
        have "bmk_inv (?m(k \<mapsto> profile')) bmks'" by simp
        with s' show ?thesis by (simp add: update_conv')
      qed
    qed
  qed
qed

lemma bmk_inv_delete_profile:
  assumes inv: "bmk_inv (map_of (profiles s)) (bookmarks s)"
    and run: "delete_bookmarks_profile urls k (fs, s) = ((fs', s'), e)"
  shows "bmk_inv (map_of (profiles s')) (bookmarks s')"
proof (cases "s' = s")
  case True
  with inv show ?thesis by simp
next
  case False
  with run obtain profile roots roots' bmks' profile' e0 where
    p: "map_of (profiles s) k = Some profile"
    and d: "delete_roots urls roots (bookmarks s, profile) = ((roots', (bmks', profile')), e0)"
    and s': "s' = s\<lparr>bookmarks := bmks', profiles := AList.update k profile' (profiles s)\<rparr>"
    by (auto simp: delete_bookmarks_profile_def Let_def
             split: option.splits sum.splits if_splits prod.splits)
  let ?m = "map_of (profiles s)"
  from p have "?m(k \<mapsto> profile) = ?m" by (rule map_upd_triv)
  with inv have i0: "bmk_inv (?m(k \<mapsto> snd (bookmarks s, profile))) (fst (bookmarks s, profile))"
    by simp
  have "bmk_inv (?m(k \<mapsto> snd (snd (fst (delete_roots urls roots (bookmarks s, profile))))))
          (fst (snd (fst (delete_roots urls roots (bookmarks s, profile)))))"
  proof (rule delete_roots_invariant
           [where P = "\<lambda>st. bmk_inv (?m(k \<mapsto> snd st)) (fst st)", OF _ i0])
    fix url and st :: bmk_state
    assume i: "bmk_inv (?m(k \<mapsto> snd st)) (fst st)"
    obtain b1 p1 where r: "remove_bookmark url (fst st, snd st) = (b1, p1)"
      by (cases "remove_bookmark url (fst st, snd st)")
    from bmk_inv_remove [OF i r] r
    show "bmk_inv (?m(k \<mapsto> snd (remove_bookmark url st))) (fst (remove_bookmark url st))"
      by simp
  qed
  with d have "bmk_inv (?m(k \<mapsto> profile')) bmks'" by simp
  with s' show ?thesis by (simp add: update_conv')
qed

lemma bmk_inv_integrity:
  assumes inv: "bmk_inv (map_of (profiles self)) (bookmarks self)"
  shows "profiles_by_id self \<and> bookmark_integrity self"
proof -
  note i = bmk_inv_D [OF inv]
  have a: "profiles_by_id self"
    unfolding profiles_by_id_def dict_all_iff using i(1) by blast
  have b: "\<forall>k p. map_of (profiles self) k = Some p \<longrightarrow>
             (\<forall>url path. map_of (p_bookmarks p) url = Some path \<longrightarrow>
                (case map_of (bookmarks self) url of
                   None \<Rightarrow> False
                 | Some b \<Rightarrow> map_of (b_profiles b) (p_id p) = Some path))"
  proof (intro allI impI)
    fix k p url path
    assume p: "map_of (profiles self) k = Some p" and u: "map_of (p_bookmarks p) url = Some path"
    from i(2) [OF p, of url path] u obtain b where "map_of (bookmarks self) url = Some b"
      and "map_of (b_profiles b) k = Some path" by blast
    with i(1) [OF p] show "case map_of (bookmarks self) url of
                   None \<Rightarrow> False
                 | Some b \<Rightarrow> map_of (b_profiles b) (p_id p) = Some path" by simp
  qed
  have c: "\<forall>url b. map_of (bookmarks self) url = Some b \<longrightarrow>
             b_profiles b \<noteq> []
           \<and> (\<forall>pid path. map_of (b_profiles b) pid = Some path \<longrightarrow>
                (case map_of (profiles self) pid of
                   None \<Rightarrow> False
                 | Some p \<Rightarrow> map_of (p_bookmarks p) url = Some path))"
  proof (intro allI impI conjI)
    fix url b
    assume b: "map_of (bookmarks self) url = Some b"
    from i(3) [OF b] show "b_profiles b \<noteq> []" .
    fix pid path
    assume q: "map_of (b_profiles b) pid = Some path"
    from i(4) [OF b q] obtain p where p: "map_of (profiles self) pid = Some p" by auto
    from i(2) [OF p, of url path] b q have "map_of (p_bookmarks p) url = Some path" by blast
    with p show "case map_of (profiles self) pid of
                   None \<Rightarrow> False
                 | Some p \<Rightarrow> map_of (p_bookmarks p) url = Some path" by simp
  qed
  from a b c show ?thesis
    unfolding bookmark_integrity_def dict_all_iff by blast
qed

lemma integrity_bmk_inv:
  assumes ids: "profiles_by_id self" and int: "bookmark_integrity self"
  shows "bmk_inv (map_of (profiles self)) (bookmarks self)"
proof (rule bmk_inv_I)
  from ids have id: "\<And>k p. map_of (profiles self) k = Some p \<Longrightarrow> p_id p = k"
    unfolding profiles_by_id_def dict_all_iff by blast
  from int have fw: "\<And>k p url path. map_of (profiles self) k = Some p \<Longrightarrow>
        map_of (p_bookmarks p) url = Some path \<Longrightarrow>
        (case map_of (bookmarks self) url of
           None \<Rightarrow> False
         | Some b \<Rightarrow> map_of (b_profiles b) (p_id p) = Some path)"
    and ne: "\<And>url b. map_of (bookmarks self) url = Some b \<Longrightarrow> b_profiles b \<noteq> []"
    and bw: "\<And>url b pid path. map_of (bookmarks self) url = Some b \<Longrightarrow>
        map_of (b_profiles b) pid = Some path \<Longrightarrow>
        (case map_of (profiles self) pid of
           None \<Rightarrow> False
         | Some p \<Rightarrow> map_of (p_bookmarks p) url = Some path)"
    unfolding bookmark_integrity_def dict_all_iff by blast+
  show "\<And>k p. map_of (profiles self) k = Some p \<Longrightarrow> p_id p = k" by (rule id)
  show "\<And>url b. map_of (bookmarks self) url = Some b \<Longrightarrow> b_profiles b \<noteq> []" by (rule ne)
  show "\<And>url b pid path. map_of (bookmarks self) url = Some b \<Longrightarrow>
          map_of (b_profiles b) pid = Some path \<Longrightarrow> map_of (profiles self) pid \<noteq> None"
  proof -
    fix url b pid path
    assume "map_of (bookmarks self) url = Some b" and "map_of (b_profiles b) pid = Some path"
    from bw [OF this] show "map_of (profiles self) pid \<noteq> None"
      by (cases "map_of (profiles self) pid") simp_all
  qed
  show "\<And>k p url path. map_of (profiles self) k = Some p \<Longrightarrow>
          (map_of (p_bookmarks p) url = Some path)
            = (\<exists>b. map_of (bookmarks self) url = Some b \<and> map_of (b_profiles b) k = Some path)"
  proof -
    fix k p url path
    assume p: "map_of (profiles self) k = Some p"
    show "(map_of (p_bookmarks p) url = Some path)
            = (\<exists>b. map_of (bookmarks self) url = Some b \<and> map_of (b_profiles b) k = Some path)"
    proof
      assume "map_of (p_bookmarks p) url = Some path"
      from fw [OF p this] id [OF p]
      show "\<exists>b. map_of (bookmarks self) url = Some b \<and> map_of (b_profiles b) k = Some path"
        by (cases "map_of (bookmarks self) url") simp_all
    next
      assume "\<exists>b. map_of (bookmarks self) url = Some b \<and> map_of (b_profiles b) k = Some path"
      then obtain b where b: "map_of (bookmarks self) url = Some b"
        and q: "map_of (b_profiles b) k = Some path" by blast
      from bw [OF b q] p show "map_of (p_bookmarks p) url = Some path" by simp
    qed
  qed
qed

lemma bmk_inv_initial:
  assumes "profiles_by_id self" and "no_bookmarks_yet self"
  shows "bmk_inv (map_of (profiles self)) []"
  using assms unfolding profiles_by_id_def no_bookmarks_yet_def dict_all_iff bmk_inv_def
  by simp

text \<open>
  C1, amended.  Bookmark discovery that starts from profiles standing under their own
  identifiers with empty URL-to-path mappings, as profile discovery leaves them, and that
  returns normally, ends in a state with integrity: every URL of a profile's mapping is in
  the global index with the same path under the profile's identifier, and every entry of
  a Bookmark's profile-path mapping is in that profile's mapping.  Bookmark deletion that
  starts in a state with integrity ends in one, whether it returns or raises; in
  particular no Bookmark is left in the index with an empty profile-path mapping, so a
  Bookmark whose last profile entry is removed is removed from the index.
\<close>

theorem bookmark_integrity_kept:
  "(profiles_by_id self \<and> no_bookmarks_yet self
      \<and> fetch_bookmarks_from_all_profiles fs self = (self', None)
    \<longrightarrow> profiles_by_id self' \<and> bookmark_integrity self')
 \<and> (profiles_by_id self \<and> bookmark_integrity self
      \<and> delete_bookmarks_from_profiles urls_to_delete profile_ids (fs, self) = ((fs2, self2), e)
    \<longrightarrow> profiles_by_id self2 \<and> bookmark_integrity self2)"
proof (rule conjI; rule impI)
  assume a: "profiles_by_id self \<and> no_bookmarks_yet self
      \<and> fetch_bookmarks_from_all_profiles fs self = (self', None)"
  have "bmk_inv (map_of (profiles self')) (bookmarks self')"
  proof (rule for_each_invariant_normal
           [where P = "\<lambda>s. bmk_inv (map_of (profiles s)) (bookmarks s)"])
    show "for_each (fetch_bookmarks_profile fs) (map fst (profiles self))
            (self\<lparr>bookmarks := []\<rparr>) = (self', None)"
      using a by (simp add: fetch_bookmarks_from_all_profiles_def)
    show "bmk_inv (map_of (profiles (self\<lparr>bookmarks := []\<rparr>))) (bookmarks (self\<lparr>bookmarks := []\<rparr>))"
      using a bmk_inv_initial [of self] by simp
    show "\<And>x s s'. bmk_inv (map_of (profiles s)) (bookmarks s) \<Longrightarrow>
            fetch_bookmarks_profile fs x s = (s', None) \<Longrightarrow>
            bmk_inv (map_of (profiles s')) (bookmarks s')"
      by (rule bmk_inv_fetch_profile)
  qed
  then show "profiles_by_id self' \<and> bookmark_integrity self'" by (rule bmk_inv_integrity)
next
  assume a: "profiles_by_id self \<and> bookmark_integrity self
      \<and> delete_bookmarks_from_profiles urls_to_delete profile_ids (fs, self) = ((fs2, self2), e)"
  then have i0: "bmk_inv (map_of (profiles (snd (fs, self)))) (bookmarks (snd (fs, self)))"
    by (simp add: integrity_bmk_inv)
  have "bmk_inv (map_of (profiles (snd (fs2, self2)))) (bookmarks (snd (fs2, self2)))"
  proof (rule for_each_invariant
           [where P = "\<lambda>w. bmk_inv (map_of (profiles (snd w))) (bookmarks (snd w))", OF _ i0])
    show "for_each (delete_bookmarks_profile urls_to_delete)
            (case profile_ids of None \<Rightarrow> map fst (profiles (snd (fs, self))) | Some ids \<Rightarrow> ids)
            (fs, self) = ((fs2, self2), e)"
      using a by (simp add: delete_bookmarks_from_profiles_def)
  next
    fix x and s s' :: world and e'
    assume i: "bmk_inv (map_of (profiles (snd s))) (bookmarks (snd s))"
      and d: "delete_bookmarks_profile urls_to_delete x s = (s', e')"
    from d have "delete_bookmarks_profile urls_to_delete x (fst s, snd s) = ((fst s', snd s'), e')"
      by simp
    from bmk_inv_delete_profile [OF i this]
    show "bmk_inv (map_of (profiles (snd s'))) (bookmarks (snd s'))" .
  qed
  then have "bmk_inv (map_of (profiles self2)) (bookmarks self2)" by simp
  then show "profiles_by_id self2 \<and> bookmark_integrity self2" by (rule bmk_inv_integrity)
qed

lemmas integ_defs = bookmark_integrity_def no_bookmarks_yet_def cons_defs

text \<open>
  C1, as stated, fails: discovery clears the global index and never a profile's
  URL-to-path mapping.  After the \<^verbatim>\<open>Bookmarks\<close> file of a profile is gone, a new
  discovery returns normally with an empty global index, and the profile still maps the
  URLs of the earlier discovery.
\<close>

theorem bookmarks_stale_counterexample:
  "bookmark_integrity ex_two_profiles
   \<and> snd (fetch_bookmarks_from_all_profiles Map.empty ex_two_profiles) = None
   \<and> bookmarks (fst (fetch_bookmarks_from_all_profiles Map.empty ex_two_profiles)) = []
   \<and> \<not> bookmark_integrity (fst (fetch_bookmarks_from_all_profiles Map.empty ex_two_profiles))"
  by (simp add: ex_defs fs_defs bmk_defs integ_defs)

theorem bookmark_integrity_kept_witness:
  "profiles_by_id ex_engine \<and> no_bookmarks_yet ex_engine
   \<and> snd (fetch_bookmarks_from_all_profiles ex_fs_bookmarks ex_engine) = None
   \<and> bookmark_integrity (fst (fetch_bookmarks_from_all_profiles ex_fs_bookmarks ex_engine))
   \<and> map fst (bookmarks (fst (fetch_bookmarks_from_all_profiles ex_fs_bookmarks ex_engine)))
       = [''http://a'', ''http://b'']
   \<and> profiles_by_id ex_two_profiles \<and> bookmark_integrity ex_two_profiles
   \<and> bookmark_integrity
        (snd (fst (delete_bookmarks_from_profiles [''http://b''] None (ex_fs_two, ex_two_profiles))))
   \<and> map fst (bookmarks
        (snd (fst (delete_bookmarks_from_profiles [''http://b''] None (ex_fs_two, ex_two_profiles)))))
       = [''http://a'']"
proof -
  let ?r = "fetch_bookmarks_from_all_profiles ex_fs_bookmarks ex_engine"
  let ?d = "delete_bookmarks_from_profiles [''http://b''] None (ex_fs_two, ex_two_profiles)"
  have a: "profiles_by_id ex_engine" "no_bookmarks_yet ex_engine"
    "profiles_by_id ex_two_profiles" "bookmark_integrity ex_two_profiles"
    by (simp_all add: ex_defs integ_defs)
  have n: "snd ?r = None"
    by (simp add: ex_defs fs_defs bmk_defs)
  then have r: "?r = (fst ?r, None)" by (simp add: prod_eq_iff)
  have d: "?d = ((fst (fst ?d), snd (fst ?d)), snd ?d)" by simp
  note t = bookmark_integrity_kept
      [where self = ex_engine and fs = ex_fs_bookmarks and self' = "fst ?r"]
  note t2 = bookmark_integrity_kept
      [where self = ex_two_profiles and urls_to_delete = "[''http://b'']" and profile_ids = None
         and fs = ex_fs_two and ?fs2.0 = "fst (fst ?d)" and ?self2.0 = "snd (fst ?d)"
         and e = "snd ?d"]
  have k1: "map fst (bookmarks (fst ?r)) = [''http://a'', ''http://b'']"
    by (simp add: ex_defs fs_defs bmk_defs Let_def)
  have k2: "map fst (bookmarks (snd (fst ?d))) = [''http://a'']"
    by (simp add: ex_defs fs_defs del_defs)
  from t a r have i1: "bookmark_integrity (fst ?r)" by blast
  from t2 a d have i2: "bookmark_integrity (snd (fst ?d))" by blast
  from a n i1 i2 k1 k2 show ?thesis by simp
qed

section \<open>Discovery, twice\<close>

subsection \<open>Discovering extensions again\<close>



lemma fetch_extension_uniform:
  "\<exists>A exts' e. \<forall>X. fetch_extension fs entry (exts, profile\<lparr>p_extensions := X\<rparr>)
       = ((exts', profile\<lparr>p_extensions := X \<union> A\<rparr>), e)"
proof -
  obtain ext_id ext_set where entry: "entry = (ext_id, ext_set)" by (cases entry)
  obtain exts1 p1 e1 where r: "fetch_extension fs (ext_id, ext_set) (exts, profile) = ((exts1, p1), e1)"
    by (cases "fetch_extension fs (ext_id, ext_set) (exts, profile)") auto
  show ?thesis
  proof (cases "map_of exts ext_id")
    case (Some ext0)
    then show ?thesis
      unfolding entry
      by (intro exI [of _ "{ext_id}"] exI [of _ "AList.update ext_id
            (ext0\<lparr>e_profiles := insert (p_id profile) (e_profiles ext0)\<rparr>) exts"] exI [of _ None])
         (simp add: fetch_extension_def)
  next
    case None
    note new = fetch_extension_new [OF None, of fs ext_set]
    from r have r': "fst (fetch_extension fs (ext_id, ext_set) (exts, profile)) = (exts1, p1)"
      "snd (fetch_extension fs (ext_id, ext_set) (exts, profile)) = e1" by simp_all
    show ?thesis
    proof (cases "exts1 = exts")
      case True
      have "\<forall>X. fetch_extension fs (ext_id, ext_set) (exts, profile\<lparr>p_extensions := X\<rparr>)
              = ((exts, profile\<lparr>p_extensions := X \<union> {}\<rparr>), e1)"
      proof
        fix X
        from r True update_new_differs [OF None]
        show "fetch_extension fs (ext_id, ext_set) (exts, profile\<lparr>p_extensions := X\<rparr>)
              = ((exts, profile\<lparr>p_extensions := X \<union> {}\<rparr>), e1)"
          unfolding new [of profile] new [of "profile\<lparr>p_extensions := X\<rparr>"]
          by (auto split: if_splits sum.splits option.splits)
      qed
      then show ?thesis unfolding entry by blast
    next
      case False
      have "\<forall>X. fetch_extension fs (ext_id, ext_set) (exts, profile\<lparr>p_extensions := X\<rparr>)
              = ((exts1, profile\<lparr>p_extensions := X \<union> {ext_id}\<rparr>), e1)"
      proof
        fix X
        from r False
        show "fetch_extension fs (ext_id, ext_set) (exts, profile\<lparr>p_extensions := X\<rparr>)
              = ((exts1, profile\<lparr>p_extensions := X \<union> {ext_id}\<rparr>), e1)"
          unfolding new [of profile] new [of "profile\<lparr>p_extensions := X\<rparr>"]
          by (auto split: if_splits sum.splits option.splits)
      qed
      then show ?thesis unfolding entry by blast
    qed
  qed
qed

lemma fetch_extensions_uniform:
  "\<exists>A exts' e. \<forall>X. for_each (fetch_extension fs) ext_settings (exts, profile\<lparr>p_extensions := X\<rparr>)
       = ((exts', profile\<lparr>p_extensions := X \<union> A\<rparr>), e)"
proof (induction ext_settings arbitrary: exts)
  case Nil
  have "\<forall>X. for_each (fetch_extension fs) [] (exts, profile\<lparr>p_extensions := X\<rparr>)
       = ((exts, profile\<lparr>p_extensions := X \<union> {}\<rparr>), None)" by simp
  then show ?case by blast
next
  case (Cons entry rest)
  from fetch_extension_uniform [of fs entry exts profile]
  obtain A1 exts1 e1 where
    one: "\<And>X. fetch_extension fs entry (exts, profile\<lparr>p_extensions := X\<rparr>)
            = ((exts1, profile\<lparr>p_extensions := X \<union> A1\<rparr>), e1)"
    by blast
  show ?case
  proof (cases e1)
    case (Some err)
    have "\<forall>X. for_each (fetch_extension fs) (entry # rest) (exts, profile\<lparr>p_extensions := X\<rparr>)
       = ((exts1, profile\<lparr>p_extensions := X \<union> A1\<rparr>), Some err)"
      using one Some by simp
    then show ?thesis by blast
  next
    case None
    from Cons.IH [of exts1]
    obtain A2 exts2 e2 where
      two: "\<And>X. for_each (fetch_extension fs) rest (exts1, profile\<lparr>p_extensions := X\<rparr>)
            = ((exts2, profile\<lparr>p_extensions := X \<union> A2\<rparr>), e2)"
      by blast
    have "\<forall>X. for_each (fetch_extension fs) (entry # rest) (exts, profile\<lparr>p_extensions := X\<rparr>)
       = ((exts2, profile\<lparr>p_extensions := X \<union> (A1 \<union> A2)\<rparr>), e2)"
    proof
      fix X
      from one [of X] None two [of "X \<union> A1"]
      show "for_each (fetch_extension fs) (entry # rest) (exts, profile\<lparr>p_extensions := X\<rparr>)
       = ((exts2, profile\<lparr>p_extensions := X \<union> (A1 \<union> A2)\<rparr>), e2)"
        by (simp add: Un_assoc)
    qed
    then show ?thesis by blast
  qed
qed



lemma fetch_extensions_profile_frame:
  assumes "fetch_extensions_profile fs k s = (s1, e1)"
  shows "map fst (profiles s1) = map fst (profiles s)
       \<and> userdata_dir s1 = userdata_dir s \<and> bookmarks s1 = bookmarks s"
proof -
  have "\<And>p p'. map_of (profiles s) k = Some p \<Longrightarrow>
          map fst (AList.update k p' (profiles s)) = map fst (profiles s)"
    using map_of_Some_key [of "profiles s" k] by (simp add: update_keys)
  with assms show ?thesis
    by (auto simp: fetch_extensions_profile_def Let_def
             split: option.splits if_splits sum.splits prod.splits)
qed



subsection \<open>Discovering bookmarks again\<close>


lemma record_paths_distinct:
  "distinct (map fst al) \<Longrightarrow> distinct (map fst (record_paths ups al))"
proof (induction ups arbitrary: al)
  case Nil
  then show ?case by (simp add: record_paths_def)
next
  case (Cons a ups)
  obtain u p where a: "a = (u, p)" by (cases a)
  from Cons.prems have "distinct (map fst (AList.update u p al))" by (simp add: distinct_update)
  from Cons.IH [OF this] a show ?case by (simp add: record_paths_def)
qed




lemma fetch_walk_uniform:
  "\<exists>ups bmks' e. \<forall>B.
      fetch_bookmarks_from_one_type info path_ls (fst st, (snd st)\<lparr>p_bookmarks := B\<rparr>)
        = ((bmks', (snd st)\<lparr>p_bookmarks := record_paths ups B\<rparr>), e)"
  "\<exists>ups bmks' e. \<forall>B.
      fetch_bookmarks_children children new_path_ls (fst st, (snd st)\<lparr>p_bookmarks := B\<rparr>)
        = ((bmks', (snd st)\<lparr>p_bookmarks := record_paths ups B\<rparr>), e)"
proof (induction info path_ls st and children new_path_ls st
       rule: fetch_bookmarks_from_one_type_fetch_bookmarks_children.induct)
  case (1 info path_ls bmks profile)
  let ?goal = "\<lambda>ups bmks' e. \<forall>B.
      fetch_bookmarks_from_one_type info path_ls (bmks, profile\<lparr>p_bookmarks := B\<rparr>)
        = ((bmks', profile\<lparr>p_bookmarks := record_paths ups B\<rparr>), e)"
  have "\<exists>ups bmks' e. ?goal ups bmks' e"
  proof (cases "n_type info")
    case None
    then have "?goal [] bmks (Some KeyError)" by (simp add: record_paths_def)
    then show ?thesis by blast
  next
    case (Some t)
    note t = Some
    show ?thesis
    proof (cases "t = ''url''")
      case True
      show ?thesis
      proof (cases "n_url info")
        case None
        with t True have "?goal [] bmks (Some KeyError)" by (simp add: record_paths_def)
        then show ?thesis by blast
      next
        case (Some url)
        note u = Some
        let ?path = "py_join ''/'' path_ls"
        show ?thesis
        proof (cases "map_of bmks url")
          case (Some b)
          with t True u have "?goal [(url, ?path)]
              (AList.update url (b\<lparr>b_profiles := AList.update (p_id profile) ?path (b_profiles b)\<rparr>) bmks)
              None"
            by (simp add: record_paths_def Let_def)
          then show ?thesis by blast
        next
          case None
          show ?thesis
          proof (cases "n_name info")
            case (Some nm)
            with t True u None have "?goal [(url, ?path)]
                (AList.update url \<lparr>b_name = nm, b_url = url,
                                    b_profiles = [(p_id profile, ?path)]\<rparr> bmks) None"
              by (simp add: record_paths_def Let_def)
            then show ?thesis by blast
          next
            case noname: None
            with t True u None have "?goal [(url, ?path)] bmks (Some KeyError)"
              by (simp add: record_paths_def Let_def)
            then show ?thesis by blast
          qed
        qed
      qed
    next
      case False
      note nu = False
      show ?thesis
      proof (cases "t = ''folder''")
        case False
        with t nu have "?goal [] bmks None" by (simp add: record_paths_def)
        then show ?thesis by blast
      next
        case True
        show ?thesis
        proof (cases "n_name info")
          case None
          with t nu True have "?goal [] bmks (Some KeyError)" by (simp add: record_paths_def)
          then show ?thesis by blast
        next
          case (Some nm)
          note nm = Some
          show ?thesis
          proof (cases "n_children info")
            case None
            with t nu True nm have "?goal [] bmks (Some KeyError)" by (simp add: record_paths_def)
            then show ?thesis by blast
          next
            case (Some cs)
            from "1.IH" [OF t nu True nm Some]
            obtain ups bmks' e where "\<forall>B.
                fetch_bookmarks_children cs (path_ls @ [nm]) (bmks, profile\<lparr>p_bookmarks := B\<rparr>)
                  = ((bmks', profile\<lparr>p_bookmarks := record_paths ups B\<rparr>), e)"
              by auto
            with t nu True nm Some have "?goal ups bmks' e" by simp
            then show ?thesis by blast
          qed
        qed
      qed
    qed
  qed
  then show ?case by simp
next
  case (2 new_path_ls st)
  have "\<forall>B. fetch_bookmarks_children [] new_path_ls (fst st, (snd st)\<lparr>p_bookmarks := B\<rparr>)
        = ((fst st, (snd st)\<lparr>p_bookmarks := record_paths [] B\<rparr>), None)"
    by (simp add: record_paths_def)
  then show ?case by blast
next
  case (3 child children new_path_ls st)
  from "3.IH"(1) obtain ups1 bmks1 e1 where
    one: "\<And>B. fetch_bookmarks_from_one_type child new_path_ls (fst st, (snd st)\<lparr>p_bookmarks := B\<rparr>)
            = ((bmks1, (snd st)\<lparr>p_bookmarks := record_paths ups1 B\<rparr>), e1)"
    by blast
  show ?case
  proof (cases e1)
    case (Some err)
    have "\<forall>B. fetch_bookmarks_children (child # children) new_path_ls
                 (fst st, (snd st)\<lparr>p_bookmarks := B\<rparr>)
        = ((bmks1, (snd st)\<lparr>p_bookmarks := record_paths ups1 B\<rparr>), Some err)"
      using one Some by (simp del: fetch_bookmarks_from_one_type.simps)
    then show ?thesis by blast
  next
    case None
    let ?x = "(bmks1, (snd st)\<lparr>p_bookmarks := record_paths ups1 (p_bookmarks (snd st))\<rparr>)"
    from one [of "p_bookmarks (snd st)"] None
    have "fetch_bookmarks_from_one_type child new_path_ls st = (?x, None)" by simp
    from "3.IH"(2) [OF this [symmetric] refl] obtain ups2 bmks2 e2 where
      two: "\<And>B. fetch_bookmarks_children children new_path_ls (bmks1, (snd st)\<lparr>p_bookmarks := B\<rparr>)
            = ((bmks2, (snd st)\<lparr>p_bookmarks := record_paths ups2 B\<rparr>), e2)"
      by auto
    have "\<forall>B. fetch_bookmarks_children (child # children) new_path_ls
                 (fst st, (snd st)\<lparr>p_bookmarks := B\<rparr>)
        = ((bmks2, (snd st)\<lparr>p_bookmarks := record_paths (ups1 @ ups2) B\<rparr>), e2)"
    proof
      fix B
      from one [of B] None two [of "record_paths ups1 B"]
      show "fetch_bookmarks_children (child # children) new_path_ls
                 (fst st, (snd st)\<lparr>p_bookmarks := B\<rparr>)
        = ((bmks2, (snd st)\<lparr>p_bookmarks := record_paths (ups1 @ ups2) B\<rparr>), e2)"
        by (simp add: record_paths_append del: fetch_bookmarks_from_one_type.simps)
    qed
    then show ?thesis by blast
  qed
qed

lemma fetch_roots_uniform:
  "\<exists>ups bmks' e. \<forall>B.
      for_each (\<lambda>(bmk_type, bookmark_info). fetch_bookmarks_from_one_type bookmark_info [[]])
        roots (bmks, profile\<lparr>p_bookmarks := B\<rparr>)
        = ((bmks', profile\<lparr>p_bookmarks := record_paths ups B\<rparr>), e)"
proof (induction roots arbitrary: bmks)
  case Nil
  have "\<forall>B. for_each (\<lambda>(bmk_type, bookmark_info). fetch_bookmarks_from_one_type bookmark_info [[]])
        [] (bmks, profile\<lparr>p_bookmarks := B\<rparr>)
        = ((bmks, profile\<lparr>p_bookmarks := record_paths [] B\<rparr>), None)"
    by (simp add: record_paths_def)
  then show ?case by blast
next
  case (Cons root rest)
  obtain t info where root: "root = (t, info)" by (cases root)
  from fetch_walk_uniform(1) [of info "[[]]" "(bmks, profile)"]
  obtain ups1 bmks1 e1 where
    one: "\<And>B. fetch_bookmarks_from_one_type info [[]] (bmks, profile\<lparr>p_bookmarks := B\<rparr>)
            = ((bmks1, profile\<lparr>p_bookmarks := record_paths ups1 B\<rparr>), e1)"
    by auto
  show ?case
  proof (cases e1)
    case (Some err)
    have "\<forall>B. for_each (\<lambda>(bmk_type, bookmark_info). fetch_bookmarks_from_one_type bookmark_info [[]])
        (root # rest) (bmks, profile\<lparr>p_bookmarks := B\<rparr>)
        = ((bmks1, profile\<lparr>p_bookmarks := record_paths ups1 B\<rparr>), Some err)"
      using one Some root by (simp del: fetch_bookmarks_from_one_type.simps)
    then show ?thesis by blast
  next
    case None
    from Cons.IH [of bmks1]
    obtain ups2 bmks2 e2 where
      two: "\<And>B. for_each (\<lambda>(bmk_type, bookmark_info). fetch_bookmarks_from_one_type bookmark_info [[]])
              rest (bmks1, profile\<lparr>p_bookmarks := B\<rparr>)
            = ((bmks2, profile\<lparr>p_bookmarks := record_paths ups2 B\<rparr>), e2)"
      by blast
    have "\<forall>B. for_each (\<lambda>(bmk_type, bookmark_info). fetch_bookmarks_from_one_type bookmark_info [[]])
        (root # rest) (bmks, profile\<lparr>p_bookmarks := B\<rparr>)
        = ((bmks2, profile\<lparr>p_bookmarks := record_paths (ups1 @ ups2) B\<rparr>), e2)"
    proof
      fix B
      from one [of B] None two [of "record_paths ups1 B"] root
      show "for_each (\<lambda>(bmk_type, bookmark_info). fetch_bookmarks_from_one_type bookmark_info [[]])
        (root # rest) (bmks, profile\<lparr>p_bookmarks := B\<rparr>)
        = ((bmks2, profile\<lparr>p_bookmarks := record_paths (ups1 @ ups2) B\<rparr>), e2)"
        by (simp add: record_paths_append del: fetch_bookmarks_from_one_type.simps)
    qed
    then show ?thesis by blast
  qed
qed



lemma fetch_bookmarks_profile_shape:
  assumes "fetch_bookmarks_profile fs k s = (s1, e1)"
  shows "profiles s1 = profiles s
       \<or> (\<exists>p ups bf. map_of (profiles s) k = Some p
            \<and> profiles s1 = AList.update k
                 (p\<lparr>p_bookmark_file := bf, p_bookmarks := record_paths ups (p_bookmarks p)\<rparr>)
                 (profiles s))"
proof (cases "map_of (profiles s) k")
  case None
  with assms show ?thesis by (simp add: fetch_bookmarks_profile_def)
next
  case (Some p)
  note lk = Some
  let ?file = "path_join (p_profile_dir p) ''Bookmarks''"
  let ?p1 = "p\<lparr>p_bookmark_file := ?file\<rparr>"
  have p1: "?p1 = p\<lparr>p_bookmark_file := ?file, p_bookmarks := record_paths [] (p_bookmarks p)\<rparr>"
    by (simp add: record_paths_def)
  have alt: "profiles s1 = AList.update k ?p1 (profiles s) \<Longrightarrow> ?thesis"
    using lk p1 by metis
  show ?thesis
  proof (cases "is_file fs ?file")
    case False
    with assms lk show ?thesis by (simp add: fetch_bookmarks_profile_def Let_def)
  next
    case True
    note isf = True
    show ?thesis
    proof (cases "read_json fs ?file")
      case (Inl err)
      with assms lk isf have "profiles s1 = AList.update k ?p1 (profiles s)"
        by (auto simp: fetch_bookmarks_profile_def Let_def split: if_splits)
      then show ?thesis by (rule alt)
    next
      case (Inr data)
      show ?thesis
      proof (cases "j_roots data")
        case None
        with assms lk isf Inr have "profiles s1 = AList.update k ?p1 (profiles s)"
          by (auto simp: fetch_bookmarks_profile_def Let_def)
        then show ?thesis by (rule alt)
      next
        case (Some roots)
        let ?body = "\<lambda>(bmk_type :: string, bookmark_info).
                       fetch_bookmarks_from_one_type bookmark_info [[]]"
        from fetch_roots_uniform [of roots "bookmarks s" ?p1]
        obtain ups bmks' e where
          u: "\<And>B. for_each ?body roots (bookmarks s, ?p1\<lparr>p_bookmarks := B\<rparr>)
                = ((bmks', ?p1\<lparr>p_bookmarks := record_paths ups B\<rparr>), e)"
          by blast
        let ?p' = "?p1\<lparr>p_bookmarks := record_paths ups (p_bookmarks p)\<rparr>"
        have same: "?p1\<lparr>p_bookmarks := p_bookmarks p\<rparr> = ?p1" by simp
        from u [of "p_bookmarks p"] same
        have run1: "for_each ?body roots (bookmarks s, ?p1) = ((bmks', ?p'), e)" by simp
        with assms lk isf Inr Some
        have "profiles s1 = AList.update k ?p' (profiles s)"
          by (auto simp: fetch_bookmarks_profile_def Let_def)
        with lk show ?thesis by blast
      qed
    qed
  qed
qed


lemma fetch_bookmarks_profile_keeps:
  assumes inv: "\<forall>k p. map_of (profiles s) k = Some p \<longrightarrow> distinct (map fst (p_bookmarks p))"
    and step: "fetch_bookmarks_profile fs k s = (s1, e1)"
  shows "\<forall>k p. map_of (profiles s1) k = Some p \<longrightarrow> distinct (map fst (p_bookmarks p))"
proof (intro allI impI)
  fix k' q assume q: "map_of (profiles s1) k' = Some q"
  from fetch_bookmarks_profile_shape [OF step]
  show "distinct (map fst (p_bookmarks q))"
  proof
    assume "profiles s1 = profiles s"
    with q inv show ?thesis by simp
  next
    assume "\<exists>p ups bf. map_of (profiles s) k = Some p
            \<and> profiles s1 = AList.update k
                 (p\<lparr>p_bookmark_file := bf, p_bookmarks := record_paths ups (p_bookmarks p)\<rparr>)
                 (profiles s)"
    then obtain p ups bf where lk: "map_of (profiles s) k = Some p"
      and s1: "profiles s1 = AList.update k
                 (p\<lparr>p_bookmark_file := bf, p_bookmarks := record_paths ups (p_bookmarks p)\<rparr>)
                 (profiles s)"
      by blast
    show ?thesis
    proof (cases "k' = k")
      case True
      with q s1 have "q = p\<lparr>p_bookmark_file := bf,
                             p_bookmarks := record_paths ups (p_bookmarks p)\<rparr>"
        by (simp add: update_conv')
      moreover from inv lk have "distinct (map fst (p_bookmarks p))" by blast
      ultimately show ?thesis by (simp add: record_paths_distinct)
    next
      case False
      with q s1 have "map_of (profiles s) k' = Some q" by (simp add: update_conv')
      with inv show ?thesis by blast
    qed
  qed
qed

lemma fetch_bookmarks_profile_frame:
  assumes "fetch_bookmarks_profile fs k s = (s1, e1)"
  shows "map fst (profiles s1) = map fst (profiles s)
       \<and> userdata_dir s1 = userdata_dir s \<and> extensions s1 = extensions s"
proof -
  have "\<And>p p'. map_of (profiles s) k = Some p \<Longrightarrow>
          map fst (AList.update k p' (profiles s)) = map fst (profiles s)"
    using map_of_Some_key [of "profiles s" k] by (simp add: update_keys)
  with assms show ?thesis
    by (auto simp: fetch_bookmarks_profile_def Let_def
             split: option.splits if_splits sum.splits prod.splits)
qed




subsection \<open>The dictionaries keep their keys distinct\<close>

lemma keys_distinct_iff:
  "keys_distinct self =
     (distinct (map fst (profiles self))
      \<and> (\<forall>k p. map_of (profiles self) k = Some p \<longrightarrow> distinct (map fst (p_bookmarks p))))"
  by (simp add: keys_distinct_def dict_all_iff)

lemma keys_distinct_init: "keys_distinct (init d)"
  by (simp add: keys_distinct_def dict_all_def init_def)

lemma new_profiles_keys:
  assumes "distinct (map fst ps)"
    and "\<forall>k p. map_of ps k = Some p \<longrightarrow> p_bookmarks p = []"
  shows "distinct (map fst (foldl (\<lambda>ps (profile_id, profile_info).
                               AList.update profile_id (new_profile d profile_id profile_info) ps)
                            ps infos))
       \<and> (\<forall>k p. map_of (foldl (\<lambda>ps (profile_id, profile_info).
                               AList.update profile_id (new_profile d profile_id profile_info) ps)
                            ps infos) k = Some p \<longrightarrow> p_bookmarks p = [])"
  using assms
proof (induction infos arbitrary: ps)
  case Nil
  then show ?case by simp
next
  case (Cons a infos)
  obtain k i where a: "a = (k, i)" by (cases a)
  let ?ps = "AList.update k (new_profile d k i) ps"
  from Cons.prems(1) have d: "distinct (map fst ?ps)" by (simp add: distinct_update)
  from Cons.prems(2) have e: "\<forall>k' p. map_of ?ps k' = Some p \<longrightarrow> p_bookmarks p = []"
    by (auto simp: update_conv' new_profile_def)
  from Cons.IH [OF d e] a show ?case by simp
qed

lemma keys_distinct_fetch_all_profiles:
  assumes "keys_distinct self"
  shows "keys_distinct (fst (fetch_all_profiles fs self))"
proof -
  have "keys_distinct (self\<lparr>profiles :=
          foldl (\<lambda>ps (profile_id, profile_info).
                   AList.update profile_id (new_profile (userdata_dir self) profile_id profile_info) ps)
                [] infos\<rparr>)" for infos
    using new_profiles_keys [of "[]" "userdata_dir self" infos]
    by (simp add: keys_distinct_iff)
  with assms show ?thesis
    by (simp add: fetch_all_profiles_def Let_def split: sum.splits option.splits)
qed

lemma fetch_extensions_profile_shape:
  assumes "fetch_extensions_profile fs k s = (s1, e1)"
  shows "profiles s1 = profiles s
       \<or> (\<exists>p X. map_of (profiles s) k = Some p
            \<and> profiles s1 = AList.update k (p\<lparr>p_extensions := X\<rparr>) (profiles s))"
proof (cases "map_of (profiles s) k")
  case None
  with assms show ?thesis by (simp add: fetch_extensions_profile_def)
next
  case (Some p)
  note lk = Some
  let ?file = "path_join (p_profile_dir p) ''Secure Preferences''"
  show ?thesis
  proof (cases "is_file fs ?file")
    case False
    with assms lk show ?thesis by (simp add: fetch_extensions_profile_def Let_def)
  next
    case True
    note isf = True
    show ?thesis
    proof (cases "read_json fs ?file")
      case (Inl err)
      with assms lk isf show ?thesis
        by (auto simp: fetch_extensions_profile_def Let_def split: if_splits)
    next
      case (Inr data)
      show ?thesis
      proof (cases "j_ext_settings data")
        case None
        with assms lk isf Inr show ?thesis
          by (auto simp: fetch_extensions_profile_def Let_def)
      next
        case (Some ext_settings)
        from fetch_extensions_uniform [of fs ext_settings "extensions s" p]
        obtain A exts' e where
          u: "\<And>X. for_each (fetch_extension fs) ext_settings (extensions s, p\<lparr>p_extensions := X\<rparr>)
                = ((exts', p\<lparr>p_extensions := X \<union> A\<rparr>), e)"
          by blast
        let ?p' = "p\<lparr>p_extensions := p_extensions p \<union> A\<rparr>"
        from u [of "p_extensions p"]
        have "fetch_extensions_from_one_profile fs ext_settings (extensions s, p) = ((exts', ?p'), e)"
          by (simp add: fetch_extensions_from_one_profile_def)
        with assms lk isf Inr Some
        have "profiles s1 = AList.update k ?p' (profiles s)"
          by (auto simp: fetch_extensions_profile_def Let_def)
        with lk show ?thesis by blast
      qed
    qed
  qed
qed

lemma fetch_extensions_profile_keeps:
  assumes inv: "\<forall>k p. map_of (profiles s) k = Some p \<longrightarrow> distinct (map fst (p_bookmarks p))"
    and step: "fetch_extensions_profile fs k s = (s1, e1)"
  shows "\<forall>k p. map_of (profiles s1) k = Some p \<longrightarrow> distinct (map fst (p_bookmarks p))"
proof (intro allI impI)
  fix k' q assume q: "map_of (profiles s1) k' = Some q"
  from fetch_extensions_profile_shape [OF step]
  show "distinct (map fst (p_bookmarks q))"
  proof
    assume "profiles s1 = profiles s"
    with q inv show ?thesis by simp
  next
    assume "\<exists>p X. map_of (profiles s) k = Some p
            \<and> profiles s1 = AList.update k (p\<lparr>p_extensions := X\<rparr>) (profiles s)"
    then obtain p X where lk: "map_of (profiles s) k = Some p"
      and s1: "profiles s1 = AList.update k (p\<lparr>p_extensions := X\<rparr>) (profiles s)"
      by blast
    show ?thesis
    proof (cases "k' = k")
      case True
      with q s1 have "q = p\<lparr>p_extensions := X\<rparr>" by (simp add: update_conv')
      moreover from inv lk have "distinct (map fst (p_bookmarks p))" by blast
      ultimately show ?thesis by simp
    next
      case False
      with q s1 have "map_of (profiles s) k' = Some q" by (simp add: update_conv')
      with inv show ?thesis by blast
    qed
  qed
qed

lemma keys_distinct_fetch_extensions:
  assumes "keys_distinct self"
  shows "keys_distinct (fst (fetch_extensions_from_all_profiles fs self))"
proof -
  let ?s0 = "self\<lparr>extensions := []\<rparr>"
  obtain s' e where run: "for_each (fetch_extensions_profile fs) (map fst (profiles self)) ?s0 = (s', e)"
    by (cases "for_each (fetch_extensions_profile fs) (map fst (profiles self)) ?s0")
  from assms have k0: "keys_distinct ?s0" by (simp add: keys_distinct_def)
  have "keys_distinct s'"
  proof (rule for_each_invariant [where P = keys_distinct, OF _ k0 run])
    fix x s s1 e1
    assume k: "keys_distinct s" and st: "fetch_extensions_profile fs x s = (s1, e1)"
    from fetch_extensions_profile_frame [OF st] k
    have "distinct (map fst (profiles s1))" by (simp add: keys_distinct_iff)
    moreover from k have "\<forall>k p. map_of (profiles s) k = Some p \<longrightarrow> distinct (map fst (p_bookmarks p))"
      by (simp add: keys_distinct_iff)
    from fetch_extensions_profile_keeps [OF this st]
    have "\<forall>k p. map_of (profiles s1) k = Some p \<longrightarrow> distinct (map fst (p_bookmarks p))" .
    ultimately show "keys_distinct s1" by (simp add: keys_distinct_iff)
  qed
  with run show ?thesis by (simp add: fetch_extensions_from_all_profiles_def)
qed

lemma keys_distinct_fetch_bookmarks:
  assumes "keys_distinct self"
  shows "keys_distinct (fst (fetch_bookmarks_from_all_profiles fs self))"
proof -
  let ?s0 = "self\<lparr>bookmarks := []\<rparr>"
  obtain s' e where run: "for_each (fetch_bookmarks_profile fs) (map fst (profiles self)) ?s0 = (s', e)"
    by (cases "for_each (fetch_bookmarks_profile fs) (map fst (profiles self)) ?s0")
  from assms have k0: "keys_distinct ?s0" by (simp add: keys_distinct_def)
  have "keys_distinct s'"
  proof (rule for_each_invariant [where P = keys_distinct, OF _ k0 run])
    fix x s s1 e1
    assume k: "keys_distinct s" and st: "fetch_bookmarks_profile fs x s = (s1, e1)"
    from fetch_bookmarks_profile_frame [OF st] k
    have "distinct (map fst (profiles s1))" by (simp add: keys_distinct_iff)
    moreover from k have "\<forall>k p. map_of (profiles s) k = Some p \<longrightarrow> distinct (map fst (p_bookmarks p))"
      by (simp add: keys_distinct_iff)
    from fetch_bookmarks_profile_keeps [OF this st]
    have "\<forall>k p. map_of (profiles s1) k = Some p \<longrightarrow> distinct (map fst (p_bookmarks p))" .
    ultimately show "keys_distinct s1" by (simp add: keys_distinct_iff)
  qed
  with run show ?thesis by (simp add: fetch_bookmarks_from_all_profiles_def)
qed

subsection \<open>The three operations\<close>



end
